theory Spec2Isabelle
  imports Complex_Main
begin

section \<open>Data model\<close>

text \<open>
  The solver of \<^verbatim>\<open>physics.js\<close> computes with JavaScript numbers.  They are modelled
  as mathematical reals: \<^verbatim>\<open>Math.cos\<close>, \<^verbatim>\<open>Math.sin\<close>, \<^verbatim>\<open>Math.sqrt\<close>, \<^verbatim>\<open>Math.abs\<close>,
  \<^verbatim>\<open>Math.min\<close>, \<^verbatim>\<open>Math.max\<close> and \<^verbatim>\<open>Math.PI\<close> are \<open>cos\<close>, \<open>sin\<close>, \<open>sqrt\<close>, \<open>abs\<close>,
  \<open>min\<close>, \<open>max\<close> and \<open>pi\<close>; rounding and overflow are not modelled.  The one place
  where the source divides by a quantity that can be zero without a guard (the shock
  length inside \<^verbatim>\<open>computeSag\<close>) is modelled with an explicit not-a-number branch.
\<close>

text \<open>The parameter object: the fields of \<^verbatim>\<open>DEFAULTS\<close> in \<^verbatim>\<open>constants.js\<close>.\<close>

record params =
  swingarmLength :: real
  lowerMountDist :: real
  upperMountX :: real
  upperMountY :: real
  shockFreeLength :: real
  shockStroke :: real
  springRate :: real
  load :: real
  preload :: real

definition DEFAULTS :: params where
  "DEFAULTS = \<lparr> swingarmLength = 550, lowerMountDist = 250, upperMountX = 160,
     upperMountY = 240, shockFreeLength = 280, shockStroke = 55, springRate = 600,
     load = 200, preload = 0 \<rparr>"

text \<open>The object \<^verbatim>\<open>{ angle, sagMM }\<close> returned by \<^verbatim>\<open>computeSag\<close>.\<close>

record sag_result =
  angle :: real
  sagMM :: real

section \<open>Geometry\<close>

text \<open>A point \<^verbatim>\<open>{ x, y }\<close> is a pair; \<open>fst\<close> is \<^verbatim>\<open>.x\<close> and \<open>snd\<close> is \<^verbatim>\<open>.y\<close>.\<close>

definition axlePosition :: "real \<Rightarrow> real \<Rightarrow> real \<times> real" where
  "axlePosition theta r = (r * cos theta, r * sin theta)"

definition lowerMountPosition :: "real \<Rightarrow> real \<Rightarrow> real \<times> real" where
  "lowerMountPosition theta r = (r * cos theta, r * sin theta)"

definition shockLength :: "real \<Rightarrow> params \<Rightarrow> real" where
  "shockLength theta p =
     (let lower = lowerMountPosition theta (lowerMountDist p);
          dx = upperMountX p - fst lower;
          dy = upperMountY p - snd lower
      in sqrt (dx * dx + dy * dy))"

definition shockCompression :: "real \<Rightarrow> params \<Rightarrow> real" where
  "shockCompression theta p = shockFreeLength p - shockLength theta p"

section \<open>Motion ratio and force model\<close>

definition motionRatio :: "real \<Rightarrow> params \<Rightarrow> real" where
  "motionRatio theta p =
     (let eps = 0.0001;
          compPlus = shockCompression (theta + eps) p;
          compMinus = shockCompression (theta - eps) p;
          axlePlus = axlePosition (theta + eps) (swingarmLength p);
          axleMinus = axlePosition (theta - eps) (swingarmLength p);
          dComp = compPlus - compMinus;
          dAxleY = snd axlePlus - snd axleMinus
      in if \<bar>dComp\<bar> < 1 / 10 ^ 10 then 0 else \<bar>dAxleY / dComp\<bar>)"

definition springForce :: "real \<Rightarrow> params \<Rightarrow> real" where
  "springForce theta p =
     (let comp_mm = shockCompression theta p;
          comp_inches = (comp_mm + preload p) / 25.4
      in springRate p * max 0 comp_inches)"

definition wheelRate :: "real \<Rightarrow> params \<Rightarrow> real" where
  "wheelRate theta p =
     (let mr = motionRatio theta p
      in if mr < 1 / 10 ^ 10 then 0 else springRate p / (mr * mr))"

section \<open>Root finder and travel limits\<close>

text \<open>
  The \<^verbatim>\<open>for\<close> loop of \<^verbatim>\<open>findAngleForShockLength\<close>: the first argument counts the
  iterations that remain (100 at the start).  \<open>lenLo\<close> is the length at the first
  lower end \<open>-pi / 2\<close>; the source never updates it.
\<close>

fun bisect :: "nat \<Rightarrow> real \<Rightarrow> params \<Rightarrow> real \<Rightarrow> real \<Rightarrow> real \<Rightarrow> real" where
  "bisect 0 targetLength p lenLo lo hi = (lo + hi) / 2"
| "bisect (Suc n) targetLength p lenLo lo hi =
     (let mid = (lo + hi) / 2;
          lenMid = shockLength mid p
      in if \<bar>lenMid - targetLength\<bar> < 0.001 then mid
         else if (lenMid - targetLength) * (lenLo - targetLength) < 0
              then bisect n targetLength p lenLo lo mid
              else bisect n targetLength p lenLo mid hi)"

definition findAngleForShockLength :: "real \<Rightarrow> params \<Rightarrow> real" where
  "findAngleForShockLength targetLength p =
     (let lo = - pi / 2;
          hi = pi / 4;
          lenLo = shockLength lo p;
          lenHi = shockLength hi p
      in if (targetLength - lenLo) * (targetLength - lenHi) > 0
         then (if \<bar>targetLength - lenLo\<bar> < \<bar>targetLength - lenHi\<bar> then lo else hi)
         else bisect 100 targetLength p lenLo lo hi)"

definition fullyExtendedAngle :: "params \<Rightarrow> real" where
  "fullyExtendedAngle p = findAngleForShockLength (shockFreeLength p) p"

definition fullyCompressedAngle :: "params \<Rightarrow> real" where
  "fullyCompressedAngle p =
     findAngleForShockLength (shockFreeLength p - shockStroke p) p"

text \<open>
  A parameter set far outside the dimensions of a motorcycle, used to test the root
  finder: the defaults with the lower mount \<open>1e40\<close> mm from the pivot, the upper mount
  at \<open>(2e40, 2e40)\<close> and a free length of \<open>3e40\<close> mm.
\<close>

definition huge_params :: params where
  "huge_params = DEFAULTS \<lparr> lowerMountDist := 10 ^ 40, upperMountX := 2 * 10 ^ 40,
     upperMountY := 2 * 10 ^ 40, shockFreeLength := 3 * 10 ^ 40 \<rparr>"

section \<open>Golden-section search\<close>

definition gr :: real where
  "gr = (sqrt 5 + 1) / 2"

definition tol :: real where
  "tol = 1 / 10 ^ 8"

text \<open>
  The \<^verbatim>\<open>while\<close> loop of \<^verbatim>\<open>findPerpendicularAngle\<close> over its four variables.  The
  source has no iteration cap, so the loop is a partial function: \<open>None\<close> stands for
  a run that never leaves the loop.
\<close>

partial_function (option) golden_loop ::
  "params \<Rightarrow> real \<Rightarrow> real \<Rightarrow> real \<Rightarrow> real \<Rightarrow> real option" where
  "golden_loop p a b c d =
     (if \<bar>b - a\<bar> > tol
      then (if motionRatio c p < motionRatio d p
            then golden_loop p a d (d - (d - a) / gr) (a + (d - a) / gr)
            else golden_loop p c b (b - (b - c) / gr) (c + (b - c) / gr))
      else Some ((a + b) / 2))"

definition findPerpendicularAngle :: "params \<Rightarrow> real option" where
  "findPerpendicularAngle p =
     (let extAngle = fullyExtendedAngle p;
          compAngle = fullyCompressedAngle p;
          a = min extAngle compAngle;
          b = max extAngle compAngle;
          c = b - (b - a) / gr;
          d = a + (b - a) / gr
      in golden_loop p a b c d)"

text \<open>
  The variables \<open>(a, b, c, d)\<close> of the loop as one value, for statements about the
  iterations.  \<open>golden_step\<close> is the body of the \<^verbatim>\<open>while\<close> loop, \<open>golden_start\<close> the values
  of the variables before the loop, and \<open>golden_iterate k\<close> their values after \<open>k\<close> runs of
  the body.  \<open>bracket_lo\<close> and \<open>bracket_hi\<close> read \<open>a\<close> and \<open>b\<close>.
\<close>

definition golden_step ::
  "params \<Rightarrow> real \<times> real \<times> real \<times> real \<Rightarrow> real \<times> real \<times> real \<times> real" where
  "golden_step p = (\<lambda>(a, b, c, d).
     if motionRatio c p < motionRatio d p
     then (a, d, d - (d - a) / gr, a + (d - a) / gr)
     else (c, b, b - (b - c) / gr, c + (b - c) / gr))"

definition golden_start :: "params \<Rightarrow> real \<times> real \<times> real \<times> real" where
  "golden_start p =
     (let extAngle = fullyExtendedAngle p;
          compAngle = fullyCompressedAngle p;
          a = min extAngle compAngle;
          b = max extAngle compAngle
      in (a, b, b - (b - a) / gr, a + (b - a) / gr))"

definition golden_iterate :: "nat \<Rightarrow> params \<Rightarrow> real \<times> real \<times> real \<times> real" where
  "golden_iterate k p = (golden_step p ^^ k) (golden_start p)"

definition bracket_lo :: "real \<times> real \<times> real \<times> real \<Rightarrow> real" where
  "bracket_lo s = fst s"

definition bracket_hi :: "real \<times> real \<times> real \<times> real \<Rightarrow> real" where
  "bracket_hi s = fst (snd s)"

text \<open>
  What every run of the body keeps: \<open>a \<le> b\<close>, and \<open>c\<close> and \<open>d\<close> are the two golden-section
  points of \<open>[a, b]\<close>.
\<close>

definition golden_inv :: "real \<times> real \<times> real \<times> real \<Rightarrow> bool" where
  "golden_inv = (\<lambda>(a, b, c, d). a \<le> b \<and> c = b - (b - a) / gr \<and> d = a + (b - a) / gr)"

section \<open>Sag solver\<close>

text \<open>
  The body of the scan loop of \<^verbatim>\<open>computeSag\<close> is written as three definitions: the
  value of \<^verbatim>\<open>springTorque\<close>, the value of \<^verbatim>\<open>loadTorque\<close> and the comparison of the
  two, each at the angle of the current iteration.

  The spring torque (the lines from \<^verbatim>\<open>const lower\<close> to \<^verbatim>\<open>const springTorque\<close>, with
  \<^verbatim>\<open>sf\<close> the spring force at the angle).  The source divides the shock direction by the
  shock length without a guard: when the length is zero both components of the
  direction are zero, the quotient \<^verbatim>\<open>0 / 0\<close> is \<^verbatim>\<open>NaN\<close> and so is the torque.
  \<open>None\<close> is that \<^verbatim>\<open>NaN\<close>.
\<close>

definition springTorque :: "real \<Rightarrow> params \<Rightarrow> real option" where
  "springTorque theta p =
     (let sf = springForce theta p;
          lower = lowerMountPosition theta (lowerMountDist p);
          dx = upperMountX p - fst lower;
          dy = upperMountY p - snd lower;
          shockLen = sqrt (dx * dx + dy * dy)
      in if shockLen = 0 then None
         else (let shockUnitX = dx / shockLen;
                   shockUnitY = dy / shockLen
               in Some (\<bar>fst lower * shockUnitY - snd lower * shockUnitX\<bar> * sf)))"

definition loadTorque :: "real \<Rightarrow> params \<Rightarrow> real" where
  "loadTorque theta p =
     (let axle = axlePosition theta (swingarmLength p)
      in load p * \<bar>fst axle\<bar>)"

text \<open>
  The comparison \<^verbatim>\<open>springTorque >= loadTorque\<close>; with \<^verbatim>\<open>NaN\<close> on the left it is
  false.
\<close>

definition torqueBalanced :: "real \<Rightarrow> params \<Rightarrow> bool" where
  "torqueBalanced theta p =
     (case springTorque theta p of
        None \<Rightarrow> False
      | Some st \<Rightarrow> st \<ge> loadTorque theta p)"

text \<open>
  The two \<^verbatim>\<open>break\<close> tests of the scan, taken together: \<open>t\<close> lies beyond the compressed
  limit in the direction of the step.
\<close>

definition past_limit :: "real \<Rightarrow> real \<Rightarrow> real \<Rightarrow> bool" where
  "past_limit step compAngle t = ((step > 0 \<and> t > compAngle) \<or> (step < 0 \<and> t < compAngle))"

text \<open>
  The \<^verbatim>\<open>for\<close> loop of \<^verbatim>\<open>computeSag\<close>: the first argument counts the iterations that
  remain (200000 at the start), \<open>theta\<close> is the loop variable before its increment.
  \<open>None\<close> is leaving the loop by \<^verbatim>\<open>break\<close> or by the cap, \<open>Some\<close> is the
  \<^verbatim>\<open>return\<close> inside the loop; a spring force that is not positive is the
  \<^verbatim>\<open>continue\<close>.  The constant \<^verbatim>\<open>limit\<close> of the source is never read and has no
  counterpart here.
\<close>

fun sag_scan ::
  "nat \<Rightarrow> params \<Rightarrow> real \<Rightarrow> real \<Rightarrow> real \<times> real \<Rightarrow> real \<Rightarrow> sag_result option" where
  "sag_scan 0 p step compAngle extAxle theta = None"
| "sag_scan (Suc n) p step compAngle extAxle theta =
     (let theta' = theta + step
      in if step > 0 \<and> theta' > compAngle then None
         else if step < 0 \<and> theta' < compAngle then None
         else if springForce theta' p \<le> 0
              then sag_scan n p step compAngle extAxle theta'
         else if torqueBalanced theta' p
              then (let axle = axlePosition theta' (swingarmLength p)
                    in Some \<lparr> angle = theta', sagMM = snd axle - snd extAxle \<rparr>)
              else sag_scan n p step compAngle extAxle theta')"

definition computeSag :: "params \<Rightarrow> sag_result" where
  "computeSag p =
     (let extAngle = fullyExtendedAngle p;
          compAngle = fullyCompressedAngle p;
          step = (if extAngle < compAngle then 0.0005 else - 0.0005);
          extAxle = axlePosition extAngle (swingarmLength p)
      in case sag_scan 200000 p step compAngle extAxle extAngle of
           Some r \<Rightarrow> r
         | None \<Rightarrow>
             (let compAxle = axlePosition compAngle (swingarmLength p)
              in \<lparr> angle = compAngle, sagMM = snd compAxle - snd extAxle \<rparr>))"

text \<open>
  The angles the scan visits: the values of \<open>theta\<close> in the iterations that get past
  the two limit checks, in order, up to and including the one that returns.
\<close>

fun scanned :: "nat \<Rightarrow> params \<Rightarrow> real \<Rightarrow> real \<Rightarrow> real \<Rightarrow> real list" where
  "scanned 0 p step compAngle theta = []"
| "scanned (Suc n) p step compAngle theta =
     (let theta' = theta + step
      in if step > 0 \<and> theta' > compAngle then []
         else if step < 0 \<and> theta' < compAngle then []
         else if springForce theta' p > 0 \<and> torqueBalanced theta' p then [theta']
         else theta' # scanned n p step compAngle theta')"

definition scannedAngles :: "params \<Rightarrow> real list" where
  "scannedAngles p =
     (let extAngle = fullyExtendedAngle p;
          compAngle = fullyCompressedAngle p;
          step = (if extAngle < compAngle then 0.0005 else - 0.0005)
      in scanned 200000 p step compAngle extAngle)"

section \<open>The default geometry\<close>

text \<open>
  The test fixture \<^verbatim>\<open>makeParams({ springRate, load })\<close>: the defaults with a spring rate
  and a load of its own.
\<close>

abbreviation dp :: "real \<Rightarrow> real \<Rightarrow> params" where
  "dp r w \<equiv> DEFAULTS \<lparr> springRate := r, load := w \<rparr>"

text \<open>
  Two coordinates of the default upper mount \<open>(160, 240)\<close> relative to a swingarm at
  the angle \<open>theta\<close>: along the swingarm and across it.  With the default lower mount
  at 250 mm the squared shock length is \<open>145700 - 500 * mount_along theta\<close>, and the
  lever arm of the shock about the pivot is \<open>250 * mount_across theta\<close> over the shock
  length.
\<close>

definition mount_along :: "real \<Rightarrow> real" where
  "mount_along theta = 160 * cos theta + 240 * sin theta"

definition mount_across :: "real \<Rightarrow> real" where
  "mount_across theta = 240 * cos theta - 160 * sin theta"

section \<open>Spring force\<close>

lemma springForce_eq:
  "springForce theta p =
     springRate p * max 0 ((shockCompression theta p + preload p) / 25.4)"
  by (simp add: springForce_def Let_def)

lemma shockLength_DEFAULTS_lo: "shockLength (- pi / 2) DEFAULTS = sqrt 265700"
  by (simp add: shockLength_def lowerMountPosition_def DEFAULTS_def Let_def)

lemma sqrt_265700_bounds: "515 < sqrt 265700" "sqrt 265700 < 516"
  by (rule real_less_rsqrt, simp, rule real_less_lsqrt, simp_all)

text \<open>
  Claim C7, as stated, fails: the force is not at least 0 for every input.  The clamp
  is on the net compression only, and the spring rate multiplies it from outside, so a
  negative spring rate gives a negative force wherever the net compression is
  positive: for the defaults with a spring rate of -600 at angle 0 the shock is
  compressed by \<open>280 - sqrt 65700\<close> mm and the force is negative.
\<close>

theorem springForce_negative_counterexample:
  "\<not> 0 \<le> springForce 0 (DEFAULTS \<lparr> springRate := - 600 \<rparr>)"
proof -
  define f where "f = 600 * max 0 ((280 - sqrt 65700) / (127 / 5))"
  have "sqrt 65700 < 280"
    by (rule real_less_lsqrt) simp_all
  then have "0 < (280 - sqrt 65700) / (127 / 5)"
    by simp
  then have pos: "0 < f"
    unfolding f_def by simp
  have "springForce 0 (DEFAULTS \<lparr> springRate := - 600 \<rparr>)
      = - (600 * max 0 ((280 - sqrt 65700) / (127 / 5)))"
    by (simp add: springForce_def shockCompression_def shockLength_def
        lowerMountPosition_def DEFAULTS_def Let_def)
  then have "springForce 0 (DEFAULTS \<lparr> springRate := - 600 \<rparr>) = - f"
    by (simp only: f_def)
  with pos show ?thesis by linarith
qed

text \<open>
  Claim C7, amended.  \<^verbatim>\<open>springForce\<close> is the spring rate times the net compression (shock
  compression plus preload, in inches) clamped at zero from below.  For a spring rate
  that is not negative the force is never negative, and for every spring rate the force
  is exactly zero whenever the net compression is zero or negative.
\<close>

theorem springForce_clamped:
  "springForce theta p =
     springRate p * max 0 ((shockCompression theta p + preload p) / 25.4)
   \<and> (0 \<le> springRate p \<longrightarrow> 0 \<le> springForce theta p)
   \<and> (shockCompression theta p + preload p \<le> 0 \<longrightarrow> springForce theta p = 0)"
  by (auto simp add: springForce_def Let_def max_def divide_le_0_iff)

theorem springForce_clamped_witness:
  "0 \<le> springRate DEFAULTS
   \<and> shockCompression (- pi / 2) DEFAULTS + preload DEFAULTS \<le> 0
   \<and> 0 \<le> springForce (- pi / 2) DEFAULTS
   \<and> springForce (- pi / 2) DEFAULTS = 0"
proof -
  have r: "0 \<le> springRate DEFAULTS"
    by (simp add: DEFAULTS_def)
  have "shockCompression (- pi / 2) DEFAULTS = 280 - sqrt 265700"
    unfolding shockCompression_def shockLength_DEFAULTS_lo by (simp add: DEFAULTS_def)
  then have c: "shockCompression (- pi / 2) DEFAULTS + preload DEFAULTS \<le> 0"
    using sqrt_265700_bounds(1) by (simp add: DEFAULTS_def)
  show ?thesis
    using r c springForce_clamped [of "- pi / 2" DEFAULTS] by blast
qed


section \<open>Motion ratio\<close>

text \<open>
  Claim C6.  \<^verbatim>\<open>motionRatio\<close> is the absolute value of the central difference of the
  axle height over the central difference of the shock compression, with the fixed
  step 0.0001 rad, when the magnitude of the compression difference is at least
  \<open>1e-10\<close>; it is 0 when that magnitude is below \<open>1e-10\<close>.  So it is never negative.
\<close>

theorem motionRatio_central_difference:
  "motionRatio theta p =
     (if \<bar>shockCompression (theta + 0.0001) p - shockCompression (theta - 0.0001) p\<bar>
           < 1 / 10 ^ 10
      then 0
      else \<bar>(snd (axlePosition (theta + 0.0001) (swingarmLength p))
              - snd (axlePosition (theta - 0.0001) (swingarmLength p)))
            / (shockCompression (theta + 0.0001) p
              - shockCompression (theta - 0.0001) p)\<bar>)
   \<and> 0 \<le> motionRatio theta p"
  by (simp add: motionRatio_def Let_def)

section \<open>Facts about the geometry\<close>

lemma shockLength_zero_circle:
  assumes "shockLength theta p = 0"
  shows "(upperMountX p)\<^sup>2 + (upperMountY p)\<^sup>2 = (lowerMountDist p)\<^sup>2"
proof -
  let ?dx = "upperMountX p - lowerMountDist p * cos theta"
  let ?dy = "upperMountY p - lowerMountDist p * sin theta"
  from assms have "?dx * ?dx + ?dy * ?dy = 0"
    by (simp add: shockLength_def lowerMountPosition_def Let_def)
  then have "?dx = 0" "?dy = 0"
    by simp_all
  then have "upperMountX p = lowerMountDist p * cos theta" "upperMountY p = lowerMountDist p * sin theta"
    by simp_all
  moreover have "(lowerMountDist p * cos theta)\<^sup>2 + (lowerMountDist p * sin theta)\<^sup>2
      = (lowerMountDist p)\<^sup>2 * ((cos theta)\<^sup>2 + (sin theta)\<^sup>2)"
    by (simp only: power_mult_distrib distrib_left)
  ultimately show ?thesis by simp
qed

lemma shockLength_nonneg: "0 \<le> shockLength theta p"
  by (simp add: shockLength_def Let_def)

lemma shockLength_DEFAULTS_pos: "0 < shockLength theta DEFAULTS"
proof -
  have "shockLength theta DEFAULTS \<noteq> 0"
  proof
    assume "shockLength theta DEFAULTS = 0"
    from shockLength_zero_circle [OF this] show False
      by (simp add: DEFAULTS_def)
  qed
  with shockLength_nonneg [of theta DEFAULTS] show ?thesis by simp
qed

lemma shockLength_alt:
  "shockLength theta p =
     sqrt ((upperMountX p - lowerMountDist p * cos theta)\<^sup>2
         + (upperMountY p - lowerMountDist p * sin theta)\<^sup>2)"
  by (simp add: shockLength_def lowerMountPosition_def Let_def power2_eq_square)

lemma shockLength_continuous: "continuous_on A (\<lambda>theta. shockLength theta p)"
  unfolding shockLength_alt by (intro continuous_intros)

lemma chord_le_arc: "sqrt ((cos a - cos b)\<^sup>2 + (sin a - sin b)\<^sup>2) \<le> \<bar>a - b\<bar>"
proof -
  define s where "s = sin ((a - b) / 2)"
  define S where "S = sin ((a + b) / 2)"
  define C where "C = cos ((a + b) / 2)"
  have "(b - a) / 2 = - ((a - b) / 2)" by argo
  then have "sin ((b - a) / 2) = - s"
    unfolding s_def by (simp only: sin_minus)
  then have c: "cos a - cos b = 2 * S * (- s)"
    unfolding cos_diff_cos S_def by simp
  have d: "sin a - sin b = 2 * s * C"
    unfolding sin_diff_sin s_def C_def by simp
  have "S\<^sup>2 + C\<^sup>2 = 1"
    unfolding S_def C_def by simp
  then have "(2 * s)\<^sup>2 * (S\<^sup>2 + C\<^sup>2) = (2 * s)\<^sup>2"
    by simp
  then have "(cos a - cos b)\<^sup>2 + (sin a - sin b)\<^sup>2 = (2 * sin ((a - b) / 2))\<^sup>2"
    unfolding c d s_def [symmetric] by (simp add: algebra_simps)
  then have "sqrt ((cos a - cos b)\<^sup>2 + (sin a - sin b)\<^sup>2) = \<bar>2 * sin ((a - b) / 2)\<bar>"
    by (simp only: real_sqrt_abs)
  also have "\<dots> \<le> 2 * \<bar>(a - b) / 2\<bar>"
    using abs_sin_x_le_abs_x [of "(a - b) / 2"] by (simp add: abs_mult)
  finally show ?thesis by simp
qed

lemma shockLength_step:
  "shockLength a p \<le> shockLength b p + \<bar>lowerMountDist p\<bar> * \<bar>a - b\<bar>"
proof -
  let ?R = "lowerMountDist p"
  let ?x = "upperMountX p - ?R * cos b" and ?y = "upperMountY p - ?R * sin b"
  let ?u = "?R * (cos b - cos a)" and ?v = "?R * (sin b - sin a)"
  have "shockLength a p = sqrt ((?x + ?u)\<^sup>2 + (?y + ?v)\<^sup>2)"
    unfolding shockLength_alt by (simp add: algebra_simps)
  also have "\<dots> \<le> sqrt (?x\<^sup>2 + ?y\<^sup>2) + sqrt (?u\<^sup>2 + ?v\<^sup>2)"
    by (rule real_sqrt_sum_squares_triangle_ineq)
  also have "sqrt (?u\<^sup>2 + ?v\<^sup>2) = \<bar>?R\<bar> * sqrt ((cos b - cos a)\<^sup>2 + (sin b - sin a)\<^sup>2)"
    by (simp add: power_mult_distrib real_sqrt_mult flip: distrib_left)
  also have "\<dots> \<le> \<bar>?R\<bar> * \<bar>b - a\<bar>"
    by (intro mult_left_mono chord_le_arc) simp
  finally show ?thesis
    by (simp add: shockLength_alt abs_minus_commute)
qed

lemma shockLength_lipschitz:
  "\<bar>shockLength a p - shockLength b p\<bar> \<le> \<bar>lowerMountDist p\<bar> * \<bar>a - b\<bar>"
  using shockLength_step [of a p b] shockLength_step [of b p a]
  by (simp add: abs_le_iff abs_minus_commute)


section \<open>Polynomial bounds for sine and cosine\<close>

lemma cos_ge_quadratic: "1 - x\<^sup>2 / 2 \<le> cos (x::real)"
proof -
  have "cos x = 1 - 2 * (sin (x / 2))\<^sup>2"
    using cos_double_sin [of "x / 2"] by simp
  moreover have "(sin (x / 2))\<^sup>2 \<le> (x / 2)\<^sup>2"
    using abs_sin_x_le_abs_x [of "x / 2"] by (simp only: abs_le_square_iff)
  ultimately show ?thesis
    by (simp add: power_divide)
qed

lemma sin_ge_cubic:
  assumes "0 \<le> (x::real)"
  shows "x - x ^ 3 / 6 \<le> sin x"
proof -
  let ?g = "\<lambda>y. sin y - y + y ^ 3 / 6"
  have "?g 0 \<le> ?g x"
  proof (rule DERIV_nonneg_imp_nondecreasing [OF assms])
    fix y :: real
    have "DERIV ?g y :> cos y - 1 + y\<^sup>2 / 2"
      by (auto intro!: derivative_eq_intros)
    moreover have "0 \<le> cos y - 1 + y\<^sup>2 / 2"
      using cos_ge_quadratic [of y] by simp
    ultimately show "\<exists>d. DERIV ?g y :> d \<and> 0 \<le> d"
      by blast
  qed
  then show ?thesis by simp
qed

lemma cos_le_quartic: "cos (x::real) \<le> 1 - x\<^sup>2 / 2 + x ^ 4 / 24"
proof -
  have nonneg: "cos y \<le> 1 - y\<^sup>2 / 2 + y ^ 4 / 24" if "0 \<le> y" for y :: real
  proof -
    let ?h = "\<lambda>z. 1 - z\<^sup>2 / 2 + z ^ 4 / 24 - cos z"
    have "?h 0 \<le> ?h y"
    proof (rule DERIV_nonneg_imp_nondecreasing [OF that])
      fix z :: real
      assume z: "0 \<le> z"
      have "DERIV ?h z :> - z + z ^ 3 / 6 + sin z"
        by (auto intro!: derivative_eq_intros)
      moreover have "0 \<le> - z + z ^ 3 / 6 + sin z"
        using sin_ge_cubic [OF z] by simp
      ultimately show "\<exists>d. DERIV ?h z :> d \<and> 0 \<le> d"
        by blast
    qed
    then show ?thesis by simp
  qed
  show ?thesis
  proof (cases "0 \<le> x")
    case True
    then show ?thesis by (rule nonneg)
  next
    case False
    then have "0 \<le> - x" by simp
    from nonneg [OF this] show ?thesis by simp
  qed
qed

lemma sin_le_quintic:
  assumes "0 \<le> (x::real)"
  shows "sin x \<le> x - x ^ 3 / 6 + x ^ 5 / 120"
proof -
  let ?g = "\<lambda>y. y - y ^ 3 / 6 + y ^ 5 / 120 - sin y"
  have "?g 0 \<le> ?g x"
  proof (rule DERIV_nonneg_imp_nondecreasing [OF assms])
    fix y :: real
    have "DERIV ?g y :> 1 - y\<^sup>2 / 2 + y ^ 4 / 24 - cos y"
      by (auto intro!: derivative_eq_intros)
    moreover have "0 \<le> 1 - y\<^sup>2 / 2 + y ^ 4 / 24 - cos y"
      using cos_le_quartic [of y] by simp
    ultimately show "\<exists>d. DERIV ?g y :> d \<and> 0 \<le> d"
      by blast
  qed
  then show ?thesis by simp
qed

section \<open>Root finder\<close>

lemma bisect_strict_range:
  "lo < hi \<Longrightarrow> lo < bisect n t p l lo hi \<and> bisect n t p l lo hi < hi"
proof (induction n arbitrary: lo hi)
  case 0
  then show ?case by simp
next
  case (Suc n)
  let ?mid = "(lo + hi) / 2"
  have m: "lo < ?mid" "?mid < hi" using Suc.prems by simp_all
  from Suc.IH [OF m(1)] Suc.IH [OF m(2)] m show ?case
    by (auto simp add: Let_def)
qed

lemma findAngle_range:
  "- pi / 2 \<le> findAngleForShockLength t p \<and> findAngleForShockLength t p \<le> pi / 4"
proof -
  have "- pi / 2 < pi / 4" using pi_gt_zero by simp
  from bisect_strict_range [OF this, of 100 t p "shockLength (- pi / 2) p"]
  show ?thesis
    by (auto simp add: findAngleForShockLength_def Let_def)
qed

lemma findAngle_unbracketed:
  assumes "(t - shockLength (- pi / 2) p) * (t - shockLength (pi / 4) p) > 0"
  shows "findAngleForShockLength t p =
      (if \<bar>t - shockLength (- pi / 2) p\<bar> < \<bar>t - shockLength (pi / 4) p\<bar> then - pi / 2 else pi / 4)"
  using assms by (simp add: findAngleForShockLength_def Let_def)


lemma shockLength_DEFAULTS_hi: "shockLength (pi / 4) DEFAULTS = sqrt (145700 - 100000 * sqrt 2)"
proof -
  have "(160 - 250 * (sqrt 2 / 2)) * (160 - 250 * (sqrt 2 / 2)) + (240 - 250 * (sqrt 2 / 2)) * (240 - 250 * (sqrt 2 / 2))
     = 145700 - 100000 * sqrt 2"
    by (simp add: algebra_simps)
  then show ?thesis
    by (simp add: shockLength_def lowerMountPosition_def DEFAULTS_def Let_def cos_45 sin_45)
qed

lemma shockLength_DEFAULTS_hi_bound: "shockLength (pi / 4) DEFAULTS < 225"
proof -
  have "1 \<le> sqrt 2" by simp
  then have "145700 - 100000 * sqrt 2 < 50625" by linarith
  then have "145700 - 100000 * sqrt 2 < 225\<^sup>2" by simp
  then have "sqrt (145700 - 100000 * sqrt 2) < sqrt (225\<^sup>2)"
    by (rule real_sqrt_less_mono)
  then show ?thesis
    by (simp add: shockLength_DEFAULTS_hi)
qed




section \<open>Accuracy of the root finder\<close>

lemma shockLength_root_between:
  assumes "lo \<le> hi" "l \<noteq> t"
    and "0 \<le> (shockLength lo p - t) * (l - t)"
    and "(shockLength hi p - t) * (l - t) \<le> 0"
  shows "\<exists>r. lo \<le> r \<and> r \<le> hi \<and> shockLength r p = t"
proof (cases "t < l")
  case True
  with assms(3,4) have "shockLength hi p \<le> t" "t \<le> shockLength lo p"
    by (simp_all add: zero_le_mult_iff mult_le_0_iff)
  then show ?thesis
    using assms(1) shockLength_continuous by (intro IVT2') simp_all
next
  case False
  with assms(2) have "l < t" by simp
  with assms(3,4) have "shockLength lo p \<le> t" "t \<le> shockLength hi p"
    by (simp_all add: zero_le_mult_iff mult_le_0_iff)
  then show ?thesis
    using assms(1) shockLength_continuous by (intro IVT') simp_all
qed

lemma bisect_accuracy:
  assumes "lo \<le> hi" "l \<noteq> t"
    and "0 \<le> (shockLength lo p - t) * (l - t)"
    and "(shockLength hi p - t) * (l - t) \<le> 0"
  shows "\<bar>shockLength (bisect n t p l lo hi) p - t\<bar> < 0.001
       \<or> \<bar>shockLength (bisect n t p l lo hi) p - t\<bar>
           \<le> \<bar>lowerMountDist p\<bar> * ((hi - lo) / 2 ^ Suc n)"
  using assms
proof (induction n arbitrary: lo hi)
  case 0
  from shockLength_root_between [OF "0.prems"]
  obtain r where r: "lo \<le> r" "r \<le> hi" "shockLength r p = t" by blast
  let ?m = "(lo + hi) / 2"
  have "\<bar>?m - r\<bar> \<le> (hi - lo) / 2" using r by (simp add: abs_le_iff field_simps)
  then have "\<bar>lowerMountDist p\<bar> * \<bar>?m - r\<bar> \<le> \<bar>lowerMountDist p\<bar> * ((hi - lo) / 2)"
    by (intro mult_left_mono) simp_all
  with shockLength_lipschitz [of ?m p r] r(3) show ?case
    by simp
next
  case (Suc n)
  let ?m = "(lo + hi) / 2"
  have m: "lo \<le> ?m" "?m \<le> hi" using Suc.prems(1) by simp_all
  show ?case
  proof (cases "\<bar>shockLength ?m p - t\<bar> < 0.001")
    case True
    then show ?thesis by (simp add: Let_def)
  next
    case False
    note far = this
    show ?thesis
    proof (cases "(shockLength ?m p - t) * (l - t) < 0")
      case True
      then have le: "(shockLength ?m p - t) * (l - t) \<le> 0" by simp
      have e: "bisect (Suc n) t p l lo hi = bisect n t p l lo ?m"
        using far True by (simp add: Let_def)
      have w: "(?m - lo) / 2 ^ Suc n = (hi - lo) / 2 ^ Suc (Suc n)"
        by (simp add: field_simps)
      from Suc.IH [OF m(1) Suc.prems(2) Suc.prems(3) le] show ?thesis
        unfolding e w .
    next
      case False
      then have ge: "0 \<le> (shockLength ?m p - t) * (l - t)" by simp
      have e: "bisect (Suc n) t p l lo hi = bisect n t p l ?m hi"
        using far False by (simp add: Let_def)
      have w: "(hi - ?m) / 2 ^ Suc n = (hi - lo) / 2 ^ Suc (Suc n)"
        by (simp add: field_simps)
      from Suc.IH [OF m(2) Suc.prems(2) ge Suc.prems(4)] show ?thesis
        unfolding e w .
    qed
  qed
qed

lemma findAngle_accuracy:
  assumes "shockLength (- pi / 2) p \<noteq> t"
    and "(t - shockLength (- pi / 2) p) * (t - shockLength (pi / 4) p) \<le> 0"
  shows "\<bar>shockLength (findAngleForShockLength t p) p - t\<bar> < 0.001
       \<or> \<bar>shockLength (findAngleForShockLength t p) p - t\<bar>
           \<le> \<bar>lowerMountDist p\<bar> * (3 * pi / 4 / 2 ^ 101)"
proof -
  let ?l = "shockLength (- pi / 2) p"
  have e: "findAngleForShockLength t p = bisect 100 t p ?l (- pi / 2) (pi / 4)"
    using assms(2) by (simp add: findAngleForShockLength_def Let_def)
  have 1: "- pi / 2 \<le> pi / 4" using pi_ge_zero by simp
  have 3: "0 \<le> (?l - t) * (?l - t)" by simp
  have "(shockLength (pi / 4) p - t) * (?l - t) = (t - ?l) * (t - shockLength (pi / 4) p)"
    by (simp add: algebra_simps)
  with assms(2) have 4: "(shockLength (pi / 4) p - t) * (?l - t) \<le> 0" by simp
  have w: "(pi / 4 - - pi / 2) / 2 ^ Suc 100 = 3 * pi / 4 / 2 ^ 101"
    by simp
  from bisect_accuracy [OF 1 assms(1) 3 4, of 100] show ?thesis
    unfolding e w .
qed


lemma findAngle_close:
  assumes "(t - shockLength (- pi / 2) p) * (t - shockLength (pi / 4) p) < 0"
    and "\<bar>lowerMountDist p\<bar> \<le> 10 ^ 28"
  shows "\<bar>shockLength (findAngleForShockLength t p) p - t\<bar> < 0.1"
proof -
  from assms(1) have ne: "shockLength (- pi / 2) p \<noteq> t" by auto
  from assms(1) have le: "(t - shockLength (- pi / 2) p) * (t - shockLength (pi / 4) p) \<le> 0"
    by simp
  have "3 * pi / 4 / 2 ^ 101 \<le> 3 / 2 ^ 101"
    using pi_less_4 by simp
  moreover have "(0::real) \<le> 3 / 2 ^ 101" by simp
  ultimately have "\<bar>lowerMountDist p\<bar> * (3 * pi / 4 / 2 ^ 101) \<le> 10 ^ 28 * (3 / 2 ^ 101)"
    using assms(2) by (intro mult_mono) simp_all
  also have "\<dots> < (0.1::real)" by simp
  finally have small: "\<bar>lowerMountDist p\<bar> * (3 * pi / 4 / 2 ^ 101) < 0.1" .
  from findAngle_accuracy [OF ne le]
  consider (tolerance) "\<bar>shockLength (findAngleForShockLength t p) p - t\<bar> < 0.001"
    | (cap) "\<bar>shockLength (findAngleForShockLength t p) p - t\<bar>
        \<le> \<bar>lowerMountDist p\<bar> * (3 * pi / 4 / 2 ^ 101)"
    by blast
  then show ?thesis
  proof cases
    case tolerance
    have "(0.001::real) < 0.1" by simp
    with tolerance show ?thesis by (rule less_trans)
  next
    case cap
    then show ?thesis using small by (rule le_less_trans)
  qed
qed

lemma DEFAULTS_bracketed:
  "(shockFreeLength DEFAULTS - shockLength (- pi / 2) DEFAULTS)
     * (shockFreeLength DEFAULTS - shockLength (pi / 4) DEFAULTS) < 0"
  "(shockFreeLength DEFAULTS - shockStroke DEFAULTS - shockLength (- pi / 2) DEFAULTS)
     * (shockFreeLength DEFAULTS - shockStroke DEFAULTS - shockLength (pi / 4) DEFAULTS) < 0"
proof -
  have lo: "515 < shockLength (- pi / 2) DEFAULTS"
    unfolding shockLength_DEFAULTS_lo by (rule sqrt_265700_bounds)
  have f: "shockFreeLength DEFAULTS = 280" "shockStroke DEFAULTS = 55"
    by (simp_all add: DEFAULTS_def)
  show "(shockFreeLength DEFAULTS - shockLength (- pi / 2) DEFAULTS)
     * (shockFreeLength DEFAULTS - shockLength (pi / 4) DEFAULTS) < 0"
    unfolding f using lo shockLength_DEFAULTS_hi_bound by (intro mult_neg_pos) simp_all
  show "(shockFreeLength DEFAULTS - shockStroke DEFAULTS - shockLength (- pi / 2) DEFAULTS)
     * (shockFreeLength DEFAULTS - shockStroke DEFAULTS - shockLength (pi / 4) DEFAULTS) < 0"
    unfolding f using lo shockLength_DEFAULTS_hi_bound by (intro mult_neg_pos) simp_all
qed

lemma bisect_thirds:
  assumes above: "\<And>theta. A \<le> theta \<Longrightarrow> theta \<le> r \<Longrightarrow> k * (r - theta) - e \<le> shockLength theta p - t"
    and below: "\<And>theta. r \<le> theta \<Longrightarrow> theta \<le> B \<Longrightarrow> shockLength theta p - t \<le> e - k * (theta - r)"
    and "t < l" "0 \<le> k"
  shows "A \<le> lo \<Longrightarrow> hi \<le> B \<Longrightarrow> 0 < hi - lo
     \<Longrightarrow> r - lo = (hi - lo) / 3 \<or> r - lo = 2 * (hi - lo) / 3
     \<Longrightarrow> 0.001 + e \<le> k * ((hi - lo) / (6 * 2 ^ n))
     \<Longrightarrow> \<bar>bisect n t p l lo hi - r\<bar> = (hi - lo) / (6 * 2 ^ n)"
proof (induction n arbitrary: lo hi)
  case 0
  from "0.prems"(3,4) have "\<bar>(lo + hi) / 2 - r\<bar> = (hi - lo) / 6"
    by argo
  then show ?case by simp
next
  case (Suc n)
  let ?w = "hi - lo"
  let ?m = "(lo + hi) / 2"
  have w: "0 < ?w" by (rule Suc.prems(3))
  have "(1::real) \<le> 2 ^ Suc n"
    by (rule one_le_power) simp
  then have "(6::real) \<le> 6 * 2 ^ Suc n"
    by simp
  then have "?w / (6 * 2 ^ Suc n) \<le> ?w / 6"
    using w by (intro frac_le) simp_all
  then have "k * (?w / (6 * 2 ^ Suc n)) \<le> k * (?w / 6)"
    using assms(4) by (rule mult_left_mono)
  with Suc.prems(5) have far: "0.001 + e \<le> k * (?w / 6)"
    by argo
  have far': "0.001 + e \<le> k * ((?m - lo) / (6 * 2 ^ n))" "0.001 + e \<le> k * ((hi - ?m) / (6 * 2 ^ n))"
    using Suc.prems(5) by (simp_all add: field_simps)
  have half: "(?m - lo) / (6 * 2 ^ n) = ?w / (6 * 2 ^ Suc n)" "(hi - ?m) / (6 * 2 ^ n) = ?w / (6 * 2 ^ Suc n)"
    by (simp_all add: field_simps)
  from Suc.prems(4) show ?case
  proof
    assume third: "r - lo = ?w / 3"
    then have d: "?m - r = ?w / 6" by argo
    have "r \<le> ?m" using d w by argo
    moreover have "?m \<le> B" using w Suc.prems(2) by argo
    ultimately have "shockLength ?m p - t \<le> e - k * (?m - r)" by (rule below)
    then have neg: "shockLength ?m p - t \<le> e - k * (?w / 6)"
      by (simp only: d)
    with far have n1: "shockLength ?m p - t \<le> - 0.001" by argo
    then have "\<not> \<bar>shockLength ?m p - t\<bar> < 0.001" by simp
    moreover from n1 have "shockLength ?m p - t < 0" by simp
    then have "(shockLength ?m p - t) * (l - t) < 0"
      using assms(3) by (intro mult_neg_pos) simp_all
    ultimately have e: "bisect (Suc n) t p l lo hi = bisect n t p l lo ?m"
      by (simp add: Let_def)
    have "A \<le> lo" by (rule Suc.prems(1))
    moreover have "?m \<le> B" using Suc.prems(2) w by argo
    moreover have "0 < ?m - lo" using w by argo
    moreover have "r - lo = (?m - lo) / 3 \<or> r - lo = 2 * (?m - lo) / 3"
      using third by argo
    ultimately have "\<bar>bisect n t p l lo ?m - r\<bar> = (?m - lo) / (6 * 2 ^ n)"
      using far'(1) by (rule Suc.IH)
    then show ?thesis
      unfolding e half .
  next
    assume third: "r - lo = 2 * ?w / 3"
    then have d: "r - ?m = ?w / 6" by argo
    have "A \<le> ?m" using w Suc.prems(1) by argo
    moreover have "?m \<le> r" using d w by argo
    ultimately have "k * (r - ?m) - e \<le> shockLength ?m p - t" by (rule above)
    then have pos: "k * (?w / 6) - e \<le> shockLength ?m p - t"
      by (simp only: d)
    with far have p1: "0.001 \<le> shockLength ?m p - t" by argo
    then have "\<not> \<bar>shockLength ?m p - t\<bar> < 0.001" by simp
    moreover from p1 have "0 < shockLength ?m p - t" by simp
    then have "0 < (shockLength ?m p - t) * (l - t)"
      using assms(3) by (intro mult_pos_pos) simp_all
    then have "\<not> (shockLength ?m p - t) * (l - t) < 0" by simp
    ultimately have e: "bisect (Suc n) t p l lo hi = bisect n t p l ?m hi"
      by (simp add: Let_def)
    have "A \<le> ?m" using Suc.prems(1) w by argo
    moreover have "hi \<le> B" by (rule Suc.prems(2))
    moreover have "0 < hi - ?m" using w by argo
    moreover have "r - ?m = (hi - ?m) / 3 \<or> r - ?m = 2 * (hi - ?m) / 3"
      using third by argo
    ultimately have "\<bar>bisect n t p l ?m hi - r\<bar> = (hi - ?m) / (6 * 2 ^ n)"
      using far'(2) by (rule Suc.IH)
    then show ?thesis
      unfolding e half .
  qed
qed

lemma shockLength_square_mount:
  assumes "lowerMountDist p = s" "upperMountX p = 2 * s" "upperMountY p = 2 * s" "0 \<le> s"
  shows "shockLength theta p = s * sqrt (9 - 4 * (cos theta + sin theta))"
proof -
  have "(2 - cos theta)\<^sup>2 + (2 - sin theta)\<^sup>2
      = 8 - 4 * (cos theta + sin theta) + ((cos theta)\<^sup>2 + (sin theta)\<^sup>2)"
    by (simp add: power2_diff algebra_simps)
  then have e: "(2 - cos theta)\<^sup>2 + (2 - sin theta)\<^sup>2 = 9 - 4 * (cos theta + sin theta)"
    by simp
  have "2 * s - s * cos theta = s * (2 - cos theta)" "2 * s - s * sin theta = s * (2 - sin theta)"
    by (simp_all add: algebra_simps)
  then have "(2 * s - s * cos theta)\<^sup>2 + (2 * s - s * sin theta)\<^sup>2
      = s\<^sup>2 * ((2 - cos theta)\<^sup>2 + (2 - sin theta)\<^sup>2)"
    by (simp only: power_mult_distrib distrib_left)
  then have "shockLength theta p = sqrt (s\<^sup>2 * (9 - 4 * (cos theta + sin theta)))"
    unfolding shockLength_alt assms(1,2,3) e by simp
  also have "\<dots> = s * sqrt (9 - 4 * (cos theta + sin theta))"
    using assms(4) by (simp add: real_sqrt_mult)
  finally show ?thesis .
qed

lemma sqrt_9_minus_upper:
  assumes "0 \<le> u" "u \<le> 2"
  shows "sqrt (9 - 4 * u) \<le> 3 - u / 2"
proof (rule real_le_lsqrt)
  show "0 \<le> 3 - u / 2" using assms by simp
  have "0 \<le> u + u\<^sup>2 / 4" using assms by simp
  then show "9 - 4 * u \<le> (3 - u / 2)\<^sup>2"
    by (simp add: power2_diff power_divide) 
qed

lemma sqrt_9_minus_lower:
  assumes "- 4 \<le> u" "u \<le> 0"
  shows "3 - u / 2 \<le> sqrt (9 - 4 * u)"
proof (rule real_le_rsqrt)
  have "u * (1 + u / 4) \<le> 0"
    using assms by (intro mult_nonpos_nonneg) simp_all
  then have "u + u\<^sup>2 / 4 \<le> 0"
    by (simp add: algebra_simps power2_eq_square)
  then show "(3 - u / 2)\<^sup>2 \<le> 9 - 4 * u"
    by (simp add: power2_diff power_divide)
qed

lemma cos_plus_sin: "cos theta + sin theta = sqrt 2 * sin (theta + pi / 4)"
  by (simp add: sin_add cos_45 sin_45 algebra_simps)

lemma sin_ge_third:
  assumes "0 \<le> (x::real)" "x \<le> 2"
  shows "x / 3 \<le> sin x"
proof -
  have "x\<^sup>2 \<le> 2\<^sup>2" using assms by (intro power_mono) simp_all
  then have "0 \<le> 4 - x\<^sup>2" by simp
  then have "0 \<le> x / 6 * (4 - x\<^sup>2)" using assms(1) by simp
  also have "x / 6 * (4 - x\<^sup>2) = x - x ^ 3 / 6 - x / 3"
    by (simp add: algebra_simps power2_eq_square power3_eq_cube)
  finally have "x / 3 \<le> x - x ^ 3 / 6" by simp
  with sin_ge_cubic [OF assms(1)] show ?thesis by linarith
qed


lemma huge_shockLength:
  "shockLength theta huge_params = 10 ^ 40 * sqrt (9 - 4 * (cos theta + sin theta))"
  by (rule shockLength_square_mount) (simp_all add: huge_params_def DEFAULTS_def)

lemma sqrt_2_ge_1: "1 \<le> sqrt 2"
  by simp

lemma scale_sixth:
  fixes S theta :: real
  shows "S * (- ((theta + pi / 4) / 6)) = - (S / 6 * (theta - - pi / 4))"
    and "S * (- (theta + pi / 4) / 6) = S / 6 * (- pi / 4 - theta)"
proof -
  have e1: "theta - - pi / 4 = theta + pi / 4" by simp
  have e2: "- pi / 4 - theta = - (theta + pi / 4)" by simp
  show "S * (- ((theta + pi / 4) / 6)) = - (S / 6 * (theta - - pi / 4))"
    unfolding e1 by simp
  show "S * (- (theta + pi / 4) / 6) = S / 6 * (- pi / 4 - theta)"
    unfolding e2 by simp
qed

lemma huge_below:
  assumes "- pi / 4 \<le> theta" "theta \<le> pi / 4"
  shows "shockLength theta huge_params - 3 * 10 ^ 40 \<le> - (10 ^ 40 / 6 * (theta - - pi / 4))"
proof -
  define x where "x = theta + pi / 4"
  define u where "u = cos theta + sin theta"
  have x: "0 \<le> x" "x \<le> 2"
    using assms pi_less_4 unfolding x_def by argo+
  have s0: "0 \<le> sin x"
    using sin_ge_third [OF x] x(1) by linarith
  have "1 * sin x \<le> sqrt 2 * sin x"
    using sqrt_2_ge_1 s0 by (rule mult_right_mono)
  then have "sin x \<le> u"
    unfolding u_def cos_plus_sin x_def by simp
  with sin_ge_third [OF x] have ux: "x / 3 \<le> u" by linarith
  with x(1) have u0: "0 \<le> u" by linarith
  have "cos theta \<le> 1" "sin theta \<le> 1" by simp_all
  then have u2: "u \<le> 2" unfolding u_def by linarith
  from sqrt_9_minus_upper [OF u0 u2] ux have "sqrt (9 - 4 * u) - 3 \<le> - (x / 6)"
    by linarith
  then have "10 ^ 40 * (sqrt (9 - 4 * u) - 3) \<le> 10 ^ 40 * (- (x / 6))"
    by (rule mult_left_mono) simp
  moreover have "shockLength theta huge_params - 3 * 10 ^ 40 = 10 ^ 40 * (sqrt (9 - 4 * u) - 3)"
    unfolding huge_shockLength u_def by (simp only: right_diff_distrib mult.commute)
  moreover have "(10::real) ^ 40 * (- (x / 6)) = - (10 ^ 40 / 6 * (theta - - pi / 4))"
    unfolding x_def by (rule scale_sixth)
  ultimately show ?thesis by (simp only:)
qed

lemma huge_above:
  assumes "- pi / 2 \<le> theta" "theta \<le> - pi / 4"
  shows "10 ^ 40 / 6 * (- pi / 4 - theta) \<le> shockLength theta huge_params - 3 * 10 ^ 40"
proof -
  define x where "x = - (theta + pi / 4)"
  define u where "u = cos theta + sin theta"
  have x: "0 \<le> x" "x \<le> 2"
    using assms pi_less_4 unfolding x_def by argo+
  have s0: "0 \<le> sin x"
    using sin_ge_third [OF x] x(1) by linarith
  have "1 * sin x \<le> sqrt 2 * sin x"
    using sqrt_2_ge_1 s0 by (rule mult_right_mono)
  moreover have "sin x = - sin (theta + pi / 4)"
    unfolding x_def by (rule sin_minus)
  then have "u = - (sqrt 2 * sin x)"
    unfolding u_def cos_plus_sin by simp
  ultimately have "u \<le> - sin x" by simp
  with sin_ge_third [OF x] have ux: "u \<le> - (x / 3)" by linarith
  with x(1) have u0: "u \<le> 0" by linarith
  have "- 1 \<le> cos theta" "- 1 \<le> sin theta" by simp_all
  then have u4: "- 4 \<le> u" unfolding u_def by linarith
  from sqrt_9_minus_lower [OF u4 u0] ux have "x / 6 \<le> sqrt (9 - 4 * u) - 3"
    by linarith
  then have "10 ^ 40 * (x / 6) \<le> 10 ^ 40 * (sqrt (9 - 4 * u) - 3)"
    by (rule mult_left_mono) simp
  moreover have "shockLength theta huge_params - 3 * 10 ^ 40 = 10 ^ 40 * (sqrt (9 - 4 * u) - 3)"
    unfolding huge_shockLength u_def by (simp only: right_diff_distrib mult.commute)
  moreover have "(10::real) ^ 40 * (x / 6) = 10 ^ 40 / 6 * (- pi / 4 - theta)"
    unfolding x_def by (rule scale_sixth)
  ultimately show ?thesis by (simp only:)
qed


lemma huge_far:
  "(1000::real) \<le> 10 ^ 40 / 6 * ((pi / 4 - - pi / 2) / (6 * 2 ^ 100))"
proof -
  have "(3::real) / 2 \<le> pi / 4 - - pi / 2"
    using pi_ge_two by simp
  then have "(3 / 2) / (6 * 2 ^ 100) \<le> (pi / 4 - - pi / 2) / (6 * 2 ^ 100)"
    by (rule divide_right_mono) simp
  then have "10 ^ 40 / 6 * ((3 / 2) / (6 * 2 ^ 100))
      \<le> 10 ^ 40 / 6 * ((pi / 4 - - pi / 2) / (6 * 2 ^ 100))"
    by (rule mult_left_mono) simp
  moreover have "(1000::real) \<le> 10 ^ 40 / 6 * ((3 / 2) / (6 * 2 ^ 100))"
    by simp
  ultimately show ?thesis by (rule order_trans [rotated])
qed

lemma huge_above_stroke:
  assumes "- pi / 2 \<le> theta" "theta \<le> - pi / 4"
  shows "10 ^ 40 / 6 * (- pi / 4 - theta) - 55
      \<le> shockLength theta huge_params - (3 * 10 ^ 40 - 55)"
  using huge_above [OF assms] by linarith

lemma huge_below_stroke:
  assumes "- pi / 4 \<le> theta" "theta \<le> pi / 4"
  shows "shockLength theta huge_params - (3 * 10 ^ 40 - 55)
      \<le> 55 - 10 ^ 40 / 6 * (theta - - pi / 4)"
  using huge_below [OF assms] by linarith

lemma huge_bracketed:
  "3 * 10 ^ 40 < shockLength (- pi / 2) huge_params"
  "shockLength (pi / 4) huge_params < 3 * 10 ^ 40 - 55"
proof -
  let ?t = "3 * 10 ^ 40 :: real"
  let ?k = "10 ^ 40 / 6 :: real"
  have q: "- pi / 2 \<le> - pi / 4" "- pi / 4 \<le> pi / 4"
    using pi_gt_zero by simp_all
  have "0 < ?k * (- pi / 4 - - pi / 2)"
    using pi_gt_zero by simp
  with huge_above [OF order_refl q(1)] show "?t < shockLength (- pi / 2) huge_params"
    by linarith
  have "1 \<le> pi / 4 - - pi / 4"
    using pi_ge_two by simp
  then have "?k * 1 \<le> ?k * (pi / 4 - - pi / 4)"
    by (rule mult_left_mono) simp
  moreover have "55 < ?k * 1" by simp
  ultimately have "55 < ?k * (pi / 4 - - pi / 4)" by linarith
  with huge_below [OF q(2) order_refl] show "shockLength (pi / 4) huge_params < ?t - 55"
    by linarith
qed

lemma huge_compressed_far:
  "1000 \<le> \<bar>shockLength (findAngleForShockLength (3 * 10 ^ 40 - 55) huge_params) huge_params
            - 3 * 10 ^ 40\<bar>"
proof -
  let ?t = "3 * 10 ^ 40 - 55 :: real"
  let ?l = "shockLength (- pi / 2) huge_params"
  let ?k = "10 ^ 40 / 6 :: real"
  let ?d = "(pi / 4 - - pi / 2) / (6 * 2 ^ 100)"
  have lo: "?t < ?l"
    using huge_bracketed(1) by linarith
  have "(?t - ?l) * (?t - shockLength (pi / 4) huge_params) < 0"
    using lo huge_bracketed(2) by (intro mult_neg_pos) simp_all
  then have e: "findAngleForShockLength ?t huge_params = bisect 100 ?t huge_params ?l (- pi / 2) (pi / 4)"
    by (simp add: findAngleForShockLength_def Let_def)
  have "(0.001 + 55 :: real) \<le> 1000" by simp
  then have far: "0.001 + 55 \<le> ?k * ?d"
    using huge_far by (rule order_trans)
  have w: "0 < pi / 4 - - pi / 2"
    using pi_gt_zero by simp
  have third: "- pi / 4 - - pi / 2 = (pi / 4 - - pi / 2) / 3
      \<or> - pi / 4 - - pi / 2 = 2 * (pi / 4 - - pi / 2) / 3"
    by simp
  have k: "0 \<le> ?k" by simp
  have "\<bar>bisect 100 ?t huge_params ?l (- pi / 2) (pi / 4) - - pi / 4\<bar> = ?d"
    by (rule bisect_thirds [where A = "- pi / 2" and B = "pi / 4" and k = ?k and e = 55,
          OF huge_above_stroke huge_below_stroke lo k order_refl order_refl w third far])
  then have d: "\<bar>findAngleForShockLength ?t huge_params - - pi / 4\<bar> = ?d"
    by (simp only: e)
  let ?a = "findAngleForShockLength ?t huge_params"
  note range = findAngle_range [of ?t huge_params]
  show ?thesis
  proof (cases "- pi / 4 \<le> ?a")
    case True
    with d have "?a - - pi / 4 = ?d" by linarith
    with huge_below [OF True conjunct2 [OF range]]
    have "shockLength ?a huge_params - 3 * 10 ^ 40 \<le> - (?k * ?d)"
      by (simp only:)
    with huge_far show ?thesis by linarith
  next
    case False
    then have le: "?a \<le> - pi / 4" by simp
    with d have "- pi / 4 - ?a = ?d" by linarith
    with huge_above [OF conjunct1 [OF range] le]
    have "?k * ?d \<le> shockLength ?a huge_params - 3 * 10 ^ 40"
      by (simp only:)
    with huge_far show ?thesis by linarith
  qed
qed

text \<open>
  Claim C1, as stated, fails for a parameter set whose two targets are bracketed but
  whose dimensions are far beyond what the 100 halvings of the interval or the
  resolution of the arithmetic can resolve.  For \<open>huge_params\<close> both targets lie strictly
  between the shock lengths at the two ends, and the compression at the fully
  compressed angle is not within 0.5 mm of the stroke of 55 mm.  In the exact
  arithmetic of this model the root for the target \<open>3e40 - 55\<close> lies next to \<open>-pi / 4\<close>, one
  third of the way into the interval, no midpoint comes near it and the iteration cap
  ends the search with a length that is off by more than 1000 mm.  (In double
  precision \<open>3e40 - 55\<close> is \<open>3e40\<close>, the two travel limits coincide, and the compression
  at the fully compressed angle is a difference of two doubles near \<open>3e40\<close>, which is 0
  or at least \<open>1e24\<close> in magnitude, never within 0.5 of 55.)
\<close>

theorem travel_limits_round_trip_counterexample:
  "(shockFreeLength huge_params - shockLength (- pi / 2) huge_params)
      * (shockFreeLength huge_params - shockLength (pi / 4) huge_params) < 0
   \<and> (shockFreeLength huge_params - shockStroke huge_params - shockLength (- pi / 2) huge_params)
      * (shockFreeLength huge_params - shockStroke huge_params - shockLength (pi / 4) huge_params) < 0
   \<and> \<not> \<bar>shockCompression (fullyCompressedAngle huge_params) huge_params
          - shockStroke huge_params\<bar> < 0.5"
proof -
  let ?t = "3 * 10 ^ 40 :: real"
  have f: "shockFreeLength huge_params = ?t" "shockStroke huge_params = 55"
    by (simp_all add: huge_params_def DEFAULTS_def)
  note lo = huge_bracketed(1) and hi = huge_bracketed(2)
  have 1: "(?t - shockLength (- pi / 2) huge_params) * (?t - shockLength (pi / 4) huge_params) < 0"
    using lo hi by (intro mult_neg_pos) simp_all
  have 2: "(?t - 55 - shockLength (- pi / 2) huge_params)
      * (?t - 55 - shockLength (pi / 4) huge_params) < 0"
    using lo hi by (intro mult_neg_pos) simp_all
  have "shockCompression (fullyCompressedAngle huge_params) huge_params
      = - (shockLength (findAngleForShockLength (?t - 55) huge_params) huge_params - ?t)"
    by (simp add: shockCompression_def fullyCompressedAngle_def f)
  then have "\<bar>shockCompression (fullyCompressedAngle huge_params) huge_params\<bar>
      = \<bar>shockLength (findAngleForShockLength (?t - 55) huge_params) huge_params - ?t\<bar>"
    by (simp only: abs_minus)
  with huge_compressed_far
  have "1000 \<le> \<bar>shockCompression (fullyCompressedAngle huge_params) huge_params\<bar>"
    by (simp only:)
  then have 3: "\<not> \<bar>shockCompression (fullyCompressedAngle huge_params) huge_params - 55\<bar> < 0.5"
    by linarith
  from 1 2 3 show ?thesis
    unfolding f by blast
qed

text \<open>
  Claim C1, amended.  For every parameter set whose targets \<open>shockFreeLength\<close> and
  \<open>shockFreeLength - shockStroke\<close> are both strictly bracketed by the shock lengths at
  \<open>-pi / 2\<close> and \<open>pi / 4\<close>, and whose mount dimensions (\<open>lowerMountDist\<close>, \<open>upperMountX\<close>,
  \<open>upperMountY\<close>) are at most \<open>1e9\<close> mm in magnitude, the compression at the fully extended
  angle is within 0.1 mm of 0 and the compression at the fully compressed angle is
  within 0.5 mm of the stroke.  In exact arithmetic the bound \<open>1e28\<close> on \<open>lowerMountDist\<close>
  alone is enough (\<open>findAngle_close\<close>); the bound \<open>1e9\<close> on all three keeps every length of
  the computation below \<open>1e10\<close> mm, where the rounding of double-precision arithmetic
  (about \<open>1e-6\<close> mm) is far below the tolerance of 0.001 mm.
\<close>

theorem travel_limits_round_trip:
  assumes "(shockFreeLength p - shockLength (- pi / 2) p)
             * (shockFreeLength p - shockLength (pi / 4) p) < 0"
    and "(shockFreeLength p - shockStroke p - shockLength (- pi / 2) p)
             * (shockFreeLength p - shockStroke p - shockLength (pi / 4) p) < 0"
    and "\<bar>lowerMountDist p\<bar> \<le> 10 ^ 9"
    and "\<bar>upperMountX p\<bar> \<le> 10 ^ 9"
    and "\<bar>upperMountY p\<bar> \<le> 10 ^ 9"
  shows "\<bar>shockCompression (fullyExtendedAngle p) p\<bar> < 0.1
       \<and> \<bar>shockCompression (fullyCompressedAngle p) p - shockStroke p\<bar> < 0.5"
proof -
  have "(10::real) ^ 9 \<le> 10 ^ 28" by simp
  with assms(3) have scale: "\<bar>lowerMountDist p\<bar> \<le> 10 ^ 28"
    by (rule order_trans)
  have "shockCompression (fullyExtendedAngle p) p
      = - (shockLength (findAngleForShockLength (shockFreeLength p) p) p - shockFreeLength p)"
    by (simp add: shockCompression_def fullyExtendedAngle_def)
  then have "\<bar>shockCompression (fullyExtendedAngle p) p\<bar>
      = \<bar>shockLength (findAngleForShockLength (shockFreeLength p) p) p - shockFreeLength p\<bar>"
    by (simp only: abs_minus)
  with findAngle_close [OF assms(1) scale]
  have ext: "\<bar>shockCompression (fullyExtendedAngle p) p\<bar> < 0.1"
    by (simp only:)
  have "shockCompression (fullyCompressedAngle p) p - shockStroke p
      = - (shockLength (findAngleForShockLength (shockFreeLength p - shockStroke p) p) p
            - (shockFreeLength p - shockStroke p))"
    by (simp add: shockCompression_def fullyCompressedAngle_def)
  then have "\<bar>shockCompression (fullyCompressedAngle p) p - shockStroke p\<bar>
      = \<bar>shockLength (findAngleForShockLength (shockFreeLength p - shockStroke p) p) p
            - (shockFreeLength p - shockStroke p)\<bar>"
    by (simp only: abs_minus)
  with findAngle_close [OF assms(2) scale]
  have "\<bar>shockCompression (fullyCompressedAngle p) p - shockStroke p\<bar> < 0.1"
    by (simp only:)
  moreover have "(0.1::real) < 0.5" by simp
  ultimately have "\<bar>shockCompression (fullyCompressedAngle p) p - shockStroke p\<bar> < 0.5"
    by (rule less_trans)
  with ext show ?thesis by (rule conjI)
qed

theorem travel_limits_round_trip_witness:
  "(shockFreeLength DEFAULTS - shockLength (- pi / 2) DEFAULTS)
     * (shockFreeLength DEFAULTS - shockLength (pi / 4) DEFAULTS) < 0
   \<and> (shockFreeLength DEFAULTS - shockStroke DEFAULTS - shockLength (- pi / 2) DEFAULTS)
     * (shockFreeLength DEFAULTS - shockStroke DEFAULTS - shockLength (pi / 4) DEFAULTS) < 0
   \<and> \<bar>lowerMountDist DEFAULTS\<bar> \<le> 10 ^ 9
   \<and> \<bar>upperMountX DEFAULTS\<bar> \<le> 10 ^ 9
   \<and> \<bar>upperMountY DEFAULTS\<bar> \<le> 10 ^ 9
   \<and> \<bar>shockCompression (fullyExtendedAngle DEFAULTS) DEFAULTS\<bar> < 0.1
   \<and> \<bar>shockCompression (fullyCompressedAngle DEFAULTS) DEFAULTS - shockStroke DEFAULTS\<bar> < 0.5"
proof -
  have r: "\<bar>lowerMountDist DEFAULTS\<bar> \<le> 10 ^ 9" "\<bar>upperMountX DEFAULTS\<bar> \<le> 10 ^ 9"
    "\<bar>upperMountY DEFAULTS\<bar> \<le> 10 ^ 9"
    by (simp_all add: DEFAULTS_def)
  from travel_limits_round_trip [OF DEFAULTS_bracketed r] DEFAULTS_bracketed r show ?thesis
    by blast
qed

section \<open>Sag scan\<close>

lemma sag_scan_Suc:
  "sag_scan (Suc n) p step c ea theta =
     (if past_limit step c (theta + step) then None
      else if 0 < springForce (theta + step) p \<and> torqueBalanced (theta + step) p
           then Some \<lparr> angle = theta + step,
                  sagMM = snd (axlePosition (theta + step) (swingarmLength p)) - snd ea \<rparr>
           else sag_scan n p step c ea (theta + step))"
  by (cases "past_limit step c (theta + step)")
     (auto simp add: Let_def past_limit_def not_less not_le)

lemma scanned_Suc:
  "scanned (Suc n) p step c theta =
     (if past_limit step c (theta + step) then []
      else if 0 < springForce (theta + step) p \<and> torqueBalanced (theta + step) p
           then [theta + step]
           else (theta + step) # scanned n p step c (theta + step))"
  by (simp add: Let_def past_limit_def)

lemma sag_scan_None:
  "(\<forall>theta \<in> set (scanned n p step c theta0). \<not> torqueBalanced theta p)
    \<Longrightarrow> sag_scan n p step c ea theta0 = None"
proof (induction n arbitrary: theta0)
  case 0
  then show ?case by simp
next
  case (Suc n)
  let ?t = "theta0 + step"
  show ?case
  proof (cases "past_limit step c ?t")
    case True
    then show ?thesis unfolding sag_scan_Suc by simp
  next
    case False
    note nb = this
    show ?thesis
    proof (cases "0 < springForce ?t p \<and> torqueBalanced ?t p")
      case True
      with nb have "scanned (Suc n) p step c theta0 = [?t]"
        unfolding scanned_Suc by simp
      with Suc.prems True show ?thesis by simp
    next
      case False
      have "scanned (Suc n) p step c theta0 = ?t # scanned n p step c ?t"
        by (simp only: scanned_Suc nb False if_False)
      with Suc.prems have "\<forall>theta \<in> set (scanned n p step c ?t). \<not> torqueBalanced theta p"
        by simp
      from Suc.IH [OF this] show ?thesis
        by (simp only: sag_scan_Suc nb False if_False)
    qed
  qed
qed

lemma sag_scan_angle_up:
  "sag_scan n p step c ea theta = Some r \<Longrightarrow> 0 < step \<Longrightarrow> theta < angle r \<and> angle r \<le> c"
proof (induction n arbitrary: theta)
  case 0
  then show ?case by simp
next
  case (Suc n)
  show ?case
  proof (cases "sag_scan n p step c ea (theta + step) = Some r")
    case True
    from Suc.IH [OF True Suc.prems(2)] Suc.prems(2) show ?thesis by simp
  next
    case False
    with Suc.prems show ?thesis
      by (auto simp add: Let_def split: if_splits)
  qed
qed

lemma sag_scan_angle_down:
  "sag_scan n p step c ea theta = Some r \<Longrightarrow> step < 0 \<Longrightarrow> c \<le> angle r \<and> angle r < theta"
proof (induction n arbitrary: theta)
  case 0
  then show ?case by simp
next
  case (Suc n)
  show ?case
  proof (cases "sag_scan n p step c ea (theta + step) = Some r")
    case True
    from Suc.IH [OF True Suc.prems(2)] Suc.prems(2) show ?thesis by simp
  next
    case False
    with Suc.prems show ?thesis
      by (auto simp add: Let_def split: if_splits)
  qed
qed

lemma computeSag_angle_between:
  "min (fullyExtendedAngle p) (fullyCompressedAngle p) \<le> angle (computeSag p)
   \<and> angle (computeSag p) \<le> max (fullyExtendedAngle p) (fullyCompressedAngle p)"
proof (cases "fullyExtendedAngle p < fullyCompressedAngle p")
  case True
  show ?thesis
  proof (cases "sag_scan 200000 p 0.0005 (fullyCompressedAngle p)
       (axlePosition (fullyExtendedAngle p) (swingarmLength p)) (fullyExtendedAngle p)")
    case None
    with True show ?thesis by (simp add: computeSag_def Let_def)
  next
    case (Some r)
    from sag_scan_angle_up [OF Some] have "fullyExtendedAngle p < angle r \<and> angle r \<le> fullyCompressedAngle p"
      by simp
    with True Some show ?thesis by (simp add: computeSag_def Let_def)
  qed
next
  case False
  show ?thesis
  proof (cases "sag_scan 200000 p (- 0.0005) (fullyCompressedAngle p)
       (axlePosition (fullyExtendedAngle p) (swingarmLength p)) (fullyExtendedAngle p)")
    case None
    with False show ?thesis by (simp add: computeSag_def Let_def)
  next
    case (Some r)
    from sag_scan_angle_down [OF Some] have "fullyCompressedAngle p \<le> angle r \<and> angle r < fullyExtendedAngle p"
      by simp
    with False Some show ?thesis by (simp add: computeSag_def Let_def)
  qed
qed

text \<open>
  Claim C4.  The angle returned by \<^verbatim>\<open>computeSag\<close> lies within one scan step
  (0.0005 rad) of the interval between the fully extended and the fully compressed
  angle, on the path that finds an equilibrium as on the bottomed-out path.
\<close>

theorem computeSag_angle_within:
  "min (fullyExtendedAngle p) (fullyCompressedAngle p) - 0.0005 \<le> angle (computeSag p)
   \<and> angle (computeSag p) \<le> max (fullyExtendedAngle p) (fullyCompressedAngle p) + 0.0005"
proof -
  have below: "a - 0.0005 \<le> a" and above: "a \<le> a + 0.0005" for a :: real
    by simp_all
  note between = computeSag_angle_between [of p]
  show ?thesis
    using order_trans [OF below conjunct1 [OF between]]
      order_trans [OF conjunct2 [OF between] above]
    by blast
qed

text \<open>
  Claim C5.  When no angle the scan visits has a spring torque that reaches the load
  torque (the scan leaves the loop by passing the compressed limit or by its cap of
  200000 iterations), \<^verbatim>\<open>computeSag\<close> returns the fully compressed angle, with the sag
  measured from the axle height at full extension to the axle height at full
  compression.
\<close>

theorem computeSag_bottomed_out:
  assumes "\<forall>theta \<in> set (scannedAngles p). \<not> torqueBalanced theta p"
  shows "computeSag p =
     \<lparr> angle = fullyCompressedAngle p,
       sagMM = snd (axlePosition (fullyCompressedAngle p) (swingarmLength p))
             - snd (axlePosition (fullyExtendedAngle p) (swingarmLength p)) \<rparr>"
proof -
  let ?step = "if fullyExtendedAngle p < fullyCompressedAngle p then 0.0005 else - 0.0005 :: real"
  from assms have "\<forall>theta \<in> set (scanned 200000 p ?step (fullyCompressedAngle p)
      (fullyExtendedAngle p)). \<not> torqueBalanced theta p"
    by (simp add: scannedAngles_def Let_def)
  from sag_scan_None [OF this]
  show ?thesis by (simp add: computeSag_def Let_def)
qed

lemma springTorque_None_iff: "springTorque theta p = None \<longleftrightarrow> shockLength theta p = 0"
  by (simp add: springTorque_def shockLength_def Let_def)

text \<open>
  Claim C9.  The scan divides the shock direction by the distance from the lower to
  the upper mount without a guard.  When that distance is strictly positive at every
  angle the scan visits, the division is defined at each of them: the spring torque is
  a number, never the not-a-number of a division by zero.  The other divisions of
  \<^verbatim>\<open>computeSag\<close> are by the literals 25.4, 2 and 4.
\<close>

theorem computeSag_division_defined:
  assumes "\<forall>theta \<in> set (scannedAngles p). 0 < shockLength theta p"
  shows "\<forall>theta \<in> set (scannedAngles p). springTorque theta p \<noteq> None"
  using assms by (auto simp add: springTorque_None_iff)

section \<open>Golden-section search\<close>

lemma gr_gt_1: "1 < gr"
proof -
  have "1 < sqrt 5" by (rule real_less_rsqrt) simp
  then show ?thesis by (simp add: gr_def)
qed

lemma tol_pos: "0 < tol"
  by (simp add: tol_def)

lemma golden_step_inv:
  assumes "golden_inv s"
  shows "golden_inv (golden_step p s)"
    and "bracket_hi (golden_step p s) - bracket_lo (golden_step p s)
          = (bracket_hi s - bracket_lo s) / gr"
    and "bracket_lo s \<le> bracket_lo (golden_step p s)"
    and "bracket_hi (golden_step p s) \<le> bracket_hi s"
proof -
  obtain a b c d where s: "s = (a, b, c, d)" by (cases s) auto
  from assms have ab: "a \<le> b" and c: "c = b - (b - a) / gr" and d: "d = a + (b - a) / gr"
    by (simp_all add: s golden_inv_def)
  have g0: "0 < gr" and g1: "1 < gr" using gr_gt_1 by simp_all
  have w: "0 \<le> b - a" using ab by simp
  have le: "(b - a) / gr \<le> b - a"
    using mult_left_mono [of 1 gr "b - a"] w g1 g0 by (simp add: divide_le_eq)
  have ge: "0 \<le> (b - a) / gr" using w g0 by simp
  have ad: "a \<le> d" "d \<le> b" "d - a = (b - a) / gr" using d ge le by simp_all
  have cb: "a \<le> c" "c \<le> b" "b - c = (b - a) / gr" using c ge le by simp_all
  show "golden_inv (golden_step p s)"
    using ad(1) cb(2) by (simp add: s golden_step_def golden_inv_def)
  show "bracket_hi (golden_step p s) - bracket_lo (golden_step p s)
          = (bracket_hi s - bracket_lo s) / gr"
    using ad(3) cb(3) by (simp add: s golden_step_def bracket_lo_def bracket_hi_def)
  show "bracket_lo s \<le> bracket_lo (golden_step p s)"
    using cb(1) by (simp add: s golden_step_def bracket_lo_def)
  show "bracket_hi (golden_step p s) \<le> bracket_hi s"
    using ad(2) by (simp add: s golden_step_def bracket_hi_def)
qed

lemma golden_start_inv: "golden_inv (golden_start p)"
  by (simp add: golden_start_def golden_inv_def Let_def)

lemma golden_iterate_Suc: "golden_iterate (Suc k) p = golden_step p (golden_iterate k p)"
  by (simp add: golden_iterate_def)

lemma golden_iterate_inv: "golden_inv (golden_iterate k p)"
proof (induction k)
  case 0
  show ?case by (simp add: golden_iterate_def golden_start_inv)
next
  case (Suc k)
  then show ?case unfolding golden_iterate_Suc by (rule golden_step_inv(1))
qed

lemma golden_loop_step:
  assumes "tol < \<bar>b - a\<bar>"
  shows "golden_loop p a b c d
      = (case golden_step p (a, b, c, d) of (a', b', c', d') \<Rightarrow> golden_loop p a' b' c' d')"
  using assms by (subst golden_loop.simps) (simp add: golden_step_def)

lemma golden_loop_exit:
  assumes "\<not> tol < \<bar>b - a\<bar>"
  shows "golden_loop p a b c d = Some ((a + b) / 2)"
  using assms by (subst golden_loop.simps) simp

lemma golden_loop_iterates:
  "golden_inv s \<Longrightarrow> bracket_hi s - bracket_lo s \<le> tol * gr ^ n \<Longrightarrow>
   \<exists>k\<le>n. (case s of (a, b, c, d) \<Rightarrow> golden_loop p a b c d)
          = Some ((bracket_lo ((golden_step p ^^ k) s) + bracket_hi ((golden_step p ^^ k) s)) / 2)
      \<and> \<not> tol < \<bar>bracket_hi ((golden_step p ^^ k) s) - bracket_lo ((golden_step p ^^ k) s)\<bar>
      \<and> (\<forall>j<k. tol < \<bar>bracket_hi ((golden_step p ^^ j) s) - bracket_lo ((golden_step p ^^ j) s)\<bar>)"
proof (induction n arbitrary: s)
  case 0
  obtain a b c d where s: "s = (a, b, c, d)" by (cases s) auto
  from "0.prems" have "a \<le> b" "b - a \<le> tol"
    by (simp_all add: s golden_inv_def bracket_lo_def bracket_hi_def)
  then have out: "\<not> tol < \<bar>b - a\<bar>" by simp
  show ?case
    using out golden_loop_exit [OF out]
    by (intro exI [of _ 0]) (simp add: s bracket_lo_def bracket_hi_def)
next
  case (Suc n)
  obtain a b c d where s: "s = (a, b, c, d)" by (cases s) auto
  show ?case
  proof (cases "tol < \<bar>b - a\<bar>")
    case False
    show ?thesis
      using False golden_loop_exit [OF False]
      by (intro exI [of _ 0]) (simp add: s bracket_lo_def bracket_hi_def)
  next
    case True
    let ?s = "golden_step p s"
    have g0: "0 < gr" using gr_gt_1 by simp
    have inv: "golden_inv ?s" using Suc.prems(1) by (rule golden_step_inv(1))
    have "bracket_hi ?s - bracket_lo ?s = (bracket_hi s - bracket_lo s) / gr"
      using Suc.prems(1) by (rule golden_step_inv(2))
    also have "\<dots> \<le> tol * gr ^ n"
      using Suc.prems(2) g0 by (simp add: divide_le_eq mult_ac)
    finally have "bracket_hi ?s - bracket_lo ?s \<le> tol * gr ^ n" .
    from Suc.IH [OF inv this]
    obtain k where k: "k \<le> n"
      "(case ?s of (a, b, c, d) \<Rightarrow> golden_loop p a b c d)
          = Some ((bracket_lo ((golden_step p ^^ k) ?s) + bracket_hi ((golden_step p ^^ k) ?s)) / 2)"
      "\<not> tol < \<bar>bracket_hi ((golden_step p ^^ k) ?s) - bracket_lo ((golden_step p ^^ k) ?s)\<bar>"
      "\<forall>j<k. tol < \<bar>bracket_hi ((golden_step p ^^ j) ?s) - bracket_lo ((golden_step p ^^ j) ?s)\<bar>"
      by blast
    have sw: "(golden_step p ^^ j) ?s = (golden_step p ^^ Suc j) s" for j
      by (simp only: funpow_Suc_right o_apply)
    have first: "tol < \<bar>bracket_hi ((golden_step p ^^ 0) s) - bracket_lo ((golden_step p ^^ 0) s)\<bar>"
      using True by (simp add: s bracket_lo_def bracket_hi_def)
    have before: "tol < \<bar>bracket_hi ((golden_step p ^^ j) s) - bracket_lo ((golden_step p ^^ j) s)\<bar>"
      if "j < Suc k" for j
    proof (cases j)
      case 0
      with first show ?thesis by (simp only:)
    next
      case (Suc i)
      with that have "i < k" by simp
      with k(4) show ?thesis unfolding sw Suc by blast
    qed
    have "(case s of (a, b, c, d) \<Rightarrow> golden_loop p a b c d)
        = (case ?s of (a, b, c, d) \<Rightarrow> golden_loop p a b c d)"
      using golden_loop_step [OF True] by (simp add: s)
    with k(1,2,3) before show ?thesis
      unfolding sw by (intro exI [of _ "Suc k"]) simp
  qed
qed

lemma findPerpendicularAngle_start:
  "findPerpendicularAngle p = (case golden_start p of (a, b, c, d) \<Rightarrow> golden_loop p a b c d)"
  by (simp add: findPerpendicularAngle_def golden_start_def Let_def)

lemma golden_iterate_width:
  "bracket_hi (golden_iterate k p) - bracket_lo (golden_iterate k p)
     = (bracket_hi (golden_iterate 0 p) - bracket_lo (golden_iterate 0 p)) / gr ^ k"
proof (induction k)
  case 0
  show ?case by simp
next
  case (Suc k)
  have "bracket_hi (golden_iterate (Suc k) p) - bracket_lo (golden_iterate (Suc k) p)
      = (bracket_hi (golden_iterate k p) - bracket_lo (golden_iterate k p)) / gr"
    unfolding golden_iterate_Suc using golden_iterate_inv by (rule golden_step_inv(2))
  then show ?case
    by (simp add: Suc.IH)
qed

lemma golden_iterate_nested:
  "bracket_lo (golden_iterate 0 p) \<le> bracket_lo (golden_iterate k p)
   \<and> bracket_hi (golden_iterate k p) \<le> bracket_hi (golden_iterate 0 p)"
proof (induction k)
  case 0
  show ?case by simp
next
  case (Suc k)
  from golden_step_inv(3,4) [OF golden_iterate_inv [of k p], of p] Suc.IH show ?case
    unfolding golden_iterate_Suc by linarith
qed

text \<open>
  Claim C8.  \<^verbatim>\<open>findPerpendicularAngle\<close> returns, with no iteration cap.  The bracket starts
  as \<open>[min ext comp, max ext comp]\<close>; every run of the loop body keeps the bracket inside
  the one before and divides its width by the golden ratio; so there is a number \<open>k\<close> of
  runs after which the loop condition \<open>|b - a| > 1e-8\<close> fails for the first time (it holds
  after each smaller number of runs), and the result is the midpoint of the bracket
  after those \<open>k\<close> runs.
\<close>

theorem findPerpendicularAngle_terminates:
  "\<exists>k. findPerpendicularAngle p
          = Some ((bracket_lo (golden_iterate k p) + bracket_hi (golden_iterate k p)) / 2)
     \<and> \<not> tol < \<bar>bracket_hi (golden_iterate k p) - bracket_lo (golden_iterate k p)\<bar>
     \<and> (\<forall>j<k. tol < \<bar>bracket_hi (golden_iterate j p) - bracket_lo (golden_iterate j p)\<bar>)
     \<and> (\<forall>j. bracket_hi (golden_iterate (Suc j) p) - bracket_lo (golden_iterate (Suc j) p)
              = (bracket_hi (golden_iterate j p) - bracket_lo (golden_iterate j p)) / gr
            \<and> bracket_lo (golden_iterate j p) \<le> bracket_lo (golden_iterate (Suc j) p)
            \<and> bracket_lo (golden_iterate (Suc j) p) \<le> bracket_hi (golden_iterate (Suc j) p)
            \<and> bracket_hi (golden_iterate (Suc j) p) \<le> bracket_hi (golden_iterate j p))
     \<and> bracket_lo (golden_iterate 0 p) = min (fullyExtendedAngle p) (fullyCompressedAngle p)
     \<and> bracket_hi (golden_iterate 0 p) = max (fullyExtendedAngle p) (fullyCompressedAngle p)
     \<and> bracket_hi (golden_iterate k p) - bracket_lo (golden_iterate k p)
          = (max (fullyExtendedAngle p) (fullyCompressedAngle p)
              - min (fullyExtendedAngle p) (fullyCompressedAngle p)) / gr ^ k
     \<and> min (fullyExtendedAngle p) (fullyCompressedAngle p) \<le> bracket_lo (golden_iterate k p)
     \<and> bracket_hi (golden_iterate k p) \<le> max (fullyExtendedAngle p) (fullyCompressedAngle p)"
proof -
  let ?s = "golden_start p"
  have lohi: "bracket_lo ?s \<le> bracket_hi ?s"
    by (simp add: golden_start_def bracket_lo_def bracket_hi_def Let_def)
  obtain n where "(bracket_hi ?s - bracket_lo ?s) / tol < gr ^ n"
    using real_arch_pow [OF gr_gt_1] by blast
  then have "bracket_hi ?s - bracket_lo ?s \<le> tol * gr ^ n"
    using tol_pos by (simp add: divide_less_eq mult.commute)
  from golden_loop_iterates [OF golden_start_inv this, of p]
  obtain k where k:
    "findPerpendicularAngle p
       = Some ((bracket_lo (golden_iterate k p) + bracket_hi (golden_iterate k p)) / 2)"
    "\<not> tol < \<bar>bracket_hi (golden_iterate k p) - bracket_lo (golden_iterate k p)\<bar>"
    "\<forall>j<k. tol < \<bar>bracket_hi (golden_iterate j p) - bracket_lo (golden_iterate j p)\<bar>"
    unfolding findPerpendicularAngle_start golden_iterate_def by blast
  have step: "bracket_hi (golden_iterate (Suc j) p) - bracket_lo (golden_iterate (Suc j) p)
              = (bracket_hi (golden_iterate j p) - bracket_lo (golden_iterate j p)) / gr
            \<and> bracket_lo (golden_iterate j p) \<le> bracket_lo (golden_iterate (Suc j) p)
            \<and> bracket_lo (golden_iterate (Suc j) p) \<le> bracket_hi (golden_iterate (Suc j) p)
            \<and> bracket_hi (golden_iterate (Suc j) p) \<le> bracket_hi (golden_iterate j p)" for j
  proof -
    note inv = golden_iterate_inv [of j p]
    have "golden_inv (golden_iterate (Suc j) p)" by (rule golden_iterate_inv)
    then have "bracket_lo (golden_iterate (Suc j) p) \<le> bracket_hi (golden_iterate (Suc j) p)"
      by (cases "golden_iterate (Suc j) p") (simp add: golden_inv_def bracket_lo_def bracket_hi_def)
    with golden_step_inv(2,3,4) [OF inv, of p] show ?thesis
      unfolding golden_iterate_Suc by simp
  qed
  have start: "bracket_lo (golden_iterate 0 p) = min (fullyExtendedAngle p) (fullyCompressedAngle p)"
    "bracket_hi (golden_iterate 0 p) = max (fullyExtendedAngle p) (fullyCompressedAngle p)"
    by (simp_all add: golden_iterate_def golden_start_def bracket_lo_def bracket_hi_def Let_def)
  have width: "bracket_hi (golden_iterate k p) - bracket_lo (golden_iterate k p)
          = (max (fullyExtendedAngle p) (fullyCompressedAngle p)
              - min (fullyExtendedAngle p) (fullyCompressedAngle p)) / gr ^ k"
    using golden_iterate_width [of k p] by (simp only: start)
  have nested: "min (fullyExtendedAngle p) (fullyCompressedAngle p) \<le> bracket_lo (golden_iterate k p)"
    "bracket_hi (golden_iterate k p) \<le> max (fullyExtendedAngle p) (fullyCompressedAngle p)"
    using golden_iterate_nested [of p k] by (simp_all only: start)
  from k step start width nested show ?thesis by blast
qed

section \<open>Sag against spring rate and load\<close>

lemma dp_shockLength: "shockLength theta (dp r w) = sqrt (145700 - 500 * mount_along theta)"
proof -
  have "(160 - 250 * c)\<^sup>2 + (240 - 250 * s)\<^sup>2
      = 83200 - 500 * (160 * c + 240 * s) + 62500 * (c\<^sup>2 + s\<^sup>2)" for c s :: real
    by (simp add: power2_eq_square algebra_simps)
  from this [of "cos theta" "sin theta"]
  have "(160 - 250 * cos theta)\<^sup>2 + (240 - 250 * sin theta)\<^sup>2 = 145700 - 500 * mount_along theta"
    unfolding mount_along_def by simp
  then show ?thesis
    unfolding shockLength_alt by (simp add: DEFAULTS_def)
qed

lemma across_pos:
  assumes "- pi / 2 \<le> m" "m \<le> pi / 4"
  shows "0 < mount_across m"
proof (cases "m \<le> 0")
  case True
  have c: "0 \<le> cos m"
    using assms True by (intro cos_ge_zero) simp_all
  have "0 \<le> sin (- m)"
    using assms True by (intro sin_ge_zero) simp_all
  then have s: "sin m \<le> 0" by simp
  have "\<not> (cos m = 0 \<and> sin m = 0)"
  proof
    assume z: "cos m = 0 \<and> sin m = 0"
    have "(sin m)\<^sup>2 + (cos m)\<^sup>2 = 1" by (rule sin_cos_squared_add)
    then show False unfolding conjunct1 [OF z] conjunct2 [OF z] by simp
  qed
  with c s have "0 < 240 * cos m + 160 * (- sin m)"
    by (cases "cos m = 0") (auto intro: add_pos_nonneg add_nonneg_pos simp: less_le)
  then show ?thesis by (simp add: mount_across_def)
next
  case False
  then have m: "0 \<le> m" by simp
  have "cos (pi / 4) \<le> cos m"
    using m assms(2) by (intro cos_monotone_0_pi_le) simp_all
  then have c: "sqrt 2 / 2 \<le> cos m" by (simp add: cos_45)
  have "sin m \<le> sin (pi / 4)"
    using m assms(2) by (intro sin_monotone_2pi_le) simp_all
  then have s: "sin m \<le> sqrt 2 / 2" by (simp add: sin_45)
  have "0 < sqrt 2" by simp
  with c s show ?thesis unfolding mount_across_def by linarith
qed

lemma along_strict_mono:
  assumes "- pi / 2 \<le> a" "a < b" "b \<le> pi / 4"
  shows "mount_along a < mount_along b"
proof -
  let ?m = "(b + a) / 2"
  let ?d = "(b - a) / 2"
  have "cos b - cos a = 2 * sin ?m * sin ((a - b) / 2)"
    by (rule cos_diff_cos)
  moreover have "(a - b) / 2 = - ?d" by argo
  then have "sin ((a - b) / 2) = - sin ?d" by (simp only: sin_minus)
  ultimately have c: "cos b - cos a = - (2 * sin ?d * sin ?m)" by simp
  have s: "sin b - sin a = 2 * sin ?d * cos ?m"
    by (rule sin_diff_sin)
  have "mount_along b - mount_along a = 160 * (cos b - cos a) + 240 * (sin b - sin a)"
    by (simp add: mount_along_def algebra_simps)
  also have "\<dots> = 2 * sin ?d * mount_across ?m"
    unfolding c s mount_across_def by (simp add: algebra_simps)
  finally have e: "mount_along b - mount_along a = 2 * sin ?d * mount_across ?m" .
  have "0 < ?d" "?d < pi" using assms pi_gt_zero by argo+
  then have "0 < sin ?d" by (rule sin_gt_zero)
  moreover have "- pi / 2 \<le> ?m" "?m \<le> pi / 4" using assms by argo+
  then have "0 < mount_across ?m" by (rule across_pos)
  ultimately have "0 < 2 * sin ?d * mount_across ?m" by simp
  then have "0 < mount_along b - mount_along a" by (simp only: e)
  then show ?thesis by simp
qed

lemma dp_shockLength_antimono:
  assumes "- pi / 2 \<le> a" "a \<le> b" "b \<le> pi / 4"
  shows "shockLength b (dp r w) \<le> shockLength a (dp r w)"
proof (cases "a = b")
  case True
  then show ?thesis by simp
next
  case False
  with assms(2) have "a < b" by simp
  from along_strict_mono [OF assms(1) this assms(3)] show ?thesis
    unfolding dp_shockLength by simp
qed

lemma along_neg_lower:
  assumes "0 \<le> y"
  shows "160 * (1 - y\<^sup>2 / 2) - 240 * y \<le> mount_along (- y)"
proof -
  have "1 - y\<^sup>2 / 2 \<le> cos y" by (rule cos_ge_quadratic)
  moreover have "sin y \<le> y" using assms by (rule sin_x_le_x)
  ultimately show ?thesis unfolding mount_along_def cos_minus sin_minus by argo
qed

lemma along_neg_upper:
  assumes "0 \<le> y"
  shows "mount_along (- y) \<le> 160 - 240 * (y - y ^ 3 / 6)"
proof -
  have "cos y \<le> 1" by simp
  moreover have "y - y ^ 3 / 6 \<le> sin y" using assms by (rule sin_ge_cubic)
  ultimately show ?thesis unfolding mount_along_def cos_minus sin_minus by argo
qed

lemma dp_shockLength_neg_le:
  assumes "0 \<le> y" "0 \<le> U"
    and "145700 - 500 * (160 * (1 - y\<^sup>2 / 2) - 240 * y) \<le> U\<^sup>2"
  shows "shockLength (- y) (dp r w) \<le> U"
  unfolding dp_shockLength
proof (rule real_le_lsqrt)
  show "0 \<le> U" by (rule assms(2))
  from along_neg_lower [OF assms(1)] assms(3) show "145700 - 500 * mount_along (- y) \<le> U\<^sup>2"
    by argo
qed

lemma dp_shockLength_neg_ge:
  assumes "0 \<le> y"
    and "Lw\<^sup>2 \<le> 145700 - 500 * (160 - 240 * (y - y ^ 3 / 6))"
  shows "Lw \<le> shockLength (- y) (dp r w)"
  unfolding dp_shockLength
proof (rule real_le_rsqrt)
  from along_neg_upper [OF assms(1)] assms(2) show "Lw\<^sup>2 \<le> 145700 - 500 * mount_along (- y)"
    by argo
qed

lemma dp_shockLength_points:
  "281 \<le> shockLength (- (3 / 20)) (dp r w)"
  "shockLength (- (93 / 2000)) (dp r w) \<le> (2673 / 10)"
  "(533 / 2) \<le> shockLength (- (23 / 500)) (dp r w)"
  "shockLength (- (61 / 2000)) (dp r w) \<le> 264"
  "262 \<le> shockLength (- (3 / 100)) (dp r w)"
  "shockLength (- (19 / 2000)) (dp r w) \<le> 259"
  "(515 / 2) \<le> shockLength (- (9 / 1000)) (dp r w)"
proof -
  show "281 \<le> shockLength (- (3 / 20)) (dp r w)"
    by (rule dp_shockLength_neg_ge) (simp_all add: power2_eq_square power3_eq_cube)
  show "shockLength (- (93 / 2000)) (dp r w) \<le> (2673 / 10)"
    by (rule dp_shockLength_neg_le) (simp_all add: power2_eq_square)
  show "(533 / 2) \<le> shockLength (- (23 / 500)) (dp r w)"
    by (rule dp_shockLength_neg_ge) (simp_all add: power2_eq_square power3_eq_cube)
  show "shockLength (- (61 / 2000)) (dp r w) \<le> 264"
    by (rule dp_shockLength_neg_le) (simp_all add: power2_eq_square)
  show "262 \<le> shockLength (- (3 / 100)) (dp r w)"
    by (rule dp_shockLength_neg_ge) (simp_all add: power2_eq_square power3_eq_cube)
  show "shockLength (- (19 / 2000)) (dp r w) \<le> 259"
    by (rule dp_shockLength_neg_le) (simp_all add: power2_eq_square)
  show "(515 / 2) \<le> shockLength (- (9 / 1000)) (dp r w)"
    by (rule dp_shockLength_neg_ge) (simp_all add: power2_eq_square power3_eq_cube)
qed

lemma bisect_frame:
  assumes "\<And>theta. shockLength theta p' = shockLength theta p"
  shows "bisect n t p' l lo hi = bisect n t p l lo hi"
  by (induction n arbitrary: lo hi) (simp_all add: assms Let_def)

lemma findAngle_frame:
  assumes "\<And>theta. shockLength theta p' = shockLength theta p"
  shows "findAngleForShockLength t p' = findAngleForShockLength t p"
  unfolding findAngleForShockLength_def Let_def assms bisect_frame [OF assms] ..

lemma shockLength_update [simp]:
  "shockLength theta (p\<lparr>springRate := r\<rparr>) = shockLength theta p"
  "shockLength theta (p\<lparr>load := w\<rparr>) = shockLength theta p"
  by (simp_all add: shockLength_def)

lemma travel_limits_update [simp]:
  "fullyExtendedAngle (p\<lparr>springRate := r\<rparr>) = fullyExtendedAngle p"
  "fullyExtendedAngle (p\<lparr>load := w\<rparr>) = fullyExtendedAngle p"
  "fullyCompressedAngle (p\<lparr>springRate := r\<rparr>) = fullyCompressedAngle p"
  "fullyCompressedAngle (p\<lparr>load := w\<rparr>) = fullyCompressedAngle p"
proof -
  have sr: "findAngleForShockLength t (p\<lparr>springRate := r\<rparr>) = findAngleForShockLength t p" for t
    by (rule findAngle_frame) simp
  have ld: "findAngleForShockLength t (p\<lparr>load := w\<rparr>) = findAngleForShockLength t p" for t
    by (rule findAngle_frame) simp
  show "fullyExtendedAngle (p\<lparr>springRate := r\<rparr>) = fullyExtendedAngle p"
    "fullyExtendedAngle (p\<lparr>load := w\<rparr>) = fullyExtendedAngle p"
    "fullyCompressedAngle (p\<lparr>springRate := r\<rparr>) = fullyCompressedAngle p"
    "fullyCompressedAngle (p\<lparr>load := w\<rparr>) = fullyCompressedAngle p"
    by (simp_all add: fullyExtendedAngle_def fullyCompressedAngle_def sr ld)
qed

lemma DEFAULTS_limits_close:
  "\<bar>shockLength (fullyExtendedAngle DEFAULTS) DEFAULTS - 280\<bar> < 1 / 10"
  "\<bar>shockLength (fullyCompressedAngle DEFAULTS) DEFAULTS - 225\<bar> < 1 / 10"
proof -
  have r: "\<bar>lowerMountDist DEFAULTS\<bar> \<le> 10 ^ 28"
    by (simp add: DEFAULTS_def)
  have f1: "shockFreeLength DEFAULTS = 280"
    and f2: "shockFreeLength DEFAULTS - shockStroke DEFAULTS = 225"
    by (simp_all add: DEFAULTS_def)
  from findAngle_close [OF DEFAULTS_bracketed(1) r]
  show "\<bar>shockLength (fullyExtendedAngle DEFAULTS) DEFAULTS - 280\<bar> < 1 / 10"
    unfolding fullyExtendedAngle_def f1 .
  from findAngle_close [OF DEFAULTS_bracketed(2) r]
  show "\<bar>shockLength (fullyCompressedAngle DEFAULTS) DEFAULTS - 225\<bar> < 1 / 10"
    unfolding fullyCompressedAngle_def f2 .
qed

lemma DEFAULTS_shockLength_antimono:
  assumes "- pi / 2 \<le> a" "a \<le> b" "b \<le> pi / 4"
  shows "shockLength b DEFAULTS \<le> shockLength a DEFAULTS"
  using dp_shockLength_antimono [OF assms, of 600 200] by simp

lemma DEFAULTS_shockLength_points:
  "281 \<le> shockLength (- (3 / 20)) DEFAULTS"
  "shockLength (- (93 / 2000)) DEFAULTS \<le> (2673 / 10)"
  "(533 / 2) \<le> shockLength (- (23 / 500)) DEFAULTS"
  "shockLength (- (61 / 2000)) DEFAULTS \<le> 264"
  "262 \<le> shockLength (- (3 / 100)) DEFAULTS"
  "shockLength (- (19 / 2000)) DEFAULTS \<le> 259"
  "(515 / 2) \<le> shockLength (- (9 / 1000)) DEFAULTS"
  using dp_shockLength_points [of 600 200] by (simp_all only: shockLength_update)

lemma DEFAULTS_extended_bounds:
  "- (3 / 20) \<le> fullyExtendedAngle DEFAULTS" "fullyExtendedAngle DEFAULTS \<le> - (93 / 2000)"
proof -
  let ?e = "fullyExtendedAngle DEFAULTS"
  have range: "- pi / 2 \<le> ?e" "?e \<le> pi / 4"
    using findAngle_range [of "shockFreeLength DEFAULTS" DEFAULTS]
    unfolding fullyExtendedAngle_def by blast+
  have close: "2799 / 10 < shockLength ?e DEFAULTS \<and> shockLength ?e DEFAULTS < 2801 / 10"
    using DEFAULTS_limits_close by linarith
  show "- (3 / 20) \<le> ?e"
  proof (rule ccontr)
    assume "\<not> - (3 / 20) \<le> ?e"
    then have le: "?e \<le> - (3 / 20)" by simp
    have b: "(- (3 / 20) :: real) \<le> pi / 4" using pi_ge_zero by linarith
    have "shockLength (- (3 / 20)) DEFAULTS \<le> shockLength ?e DEFAULTS"
      by (rule DEFAULTS_shockLength_antimono [OF range(1) le b])
    with DEFAULTS_shockLength_points(1) close show False by linarith
  qed
  show "?e \<le> - (93 / 2000)"
  proof (rule ccontr)
    assume "\<not> ?e \<le> - (93 / 2000)"
    then have le: "- (93 / 2000) \<le> ?e" by simp
    have a: "- pi / 2 \<le> (- (93 / 2000) :: real)" using pi_ge_two by linarith
    have "shockLength ?e DEFAULTS \<le> shockLength (- (93 / 2000)) DEFAULTS"
      by (rule DEFAULTS_shockLength_antimono [OF a le range(2)])
    with DEFAULTS_shockLength_points(2) close show False by linarith
  qed
qed

lemma DEFAULTS_compressed_bounds:
  "- (9 / 1000) \<le> fullyCompressedAngle DEFAULTS" "fullyCompressedAngle DEFAULTS \<le> pi / 4"
proof -
  let ?c = "fullyCompressedAngle DEFAULTS"
  have range: "- pi / 2 \<le> ?c" "?c \<le> pi / 4"
    using findAngle_range [of "shockFreeLength DEFAULTS - shockStroke DEFAULTS" DEFAULTS]
    unfolding fullyCompressedAngle_def by blast+
  have close: "shockLength ?c DEFAULTS < 2251 / 10"
    using DEFAULTS_limits_close by linarith
  show "?c \<le> pi / 4" by (rule range(2))
  show "- (9 / 1000) \<le> ?c"
  proof (rule ccontr)
    assume "\<not> - (9 / 1000) \<le> ?c"
    then have le: "?c \<le> - (9 / 1000)" by simp
    have b: "(- (9 / 1000) :: real) \<le> pi / 4" using pi_ge_zero by linarith
    have "shockLength (- (9 / 1000)) DEFAULTS \<le> shockLength ?c DEFAULTS"
      by (rule DEFAULTS_shockLength_antimono [OF range(1) le b])
    with DEFAULTS_shockLength_points(7) close show False by linarith
  qed
qed

lemma sag_scan_found_by:
  assumes "0 < step" "b \<le> c"
    and bal: "\<And>theta. b - step < theta \<Longrightarrow> theta \<le> b
          \<Longrightarrow> 0 < springForce theta p \<and> torqueBalanced theta p"
  shows "theta0 \<le> b - step \<Longrightarrow> b - theta0 \<le> real n * step
     \<Longrightarrow> \<exists>r. sag_scan n p step c ea theta0 = Some r \<and> theta0 < angle r \<and> angle r \<le> b"
proof (induction n arbitrary: theta0)
  case 0
  with assms(1) show ?case by simp
next
  case (Suc n)
  let ?t = "theta0 + step"
  have t: "?t \<le> b" using Suc.prems(1) by simp
  with assms(1,2) have np: "\<not> past_limit step c ?t"
    by (simp add: past_limit_def)
  show ?case
  proof (cases "0 < springForce ?t p \<and> torqueBalanced ?t p")
    case True
    have "sag_scan (Suc n) p step c ea theta0
        = Some \<lparr> angle = ?t, sagMM = snd (axlePosition ?t (swingarmLength p)) - snd ea \<rparr>"
      by (simp only: sag_scan_Suc np True if_False if_True simp_thms)
    with t assms(1) show ?thesis by simp
  next
    case False
    have e: "sag_scan (Suc n) p step c ea theta0 = sag_scan n p step c ea ?t"
      by (simp only: sag_scan_Suc np False if_False simp_thms)
    have le: "?t \<le> b - step"
    proof (rule ccontr)
      assume "\<not> ?t \<le> b - step"
      then have "b - step < ?t" by simp
      from bal [OF this t] False show False by simp
    qed
    have "b - ?t \<le> real n * step"
      using Suc.prems(2) by (simp add: algebra_simps)
    from Suc.IH [OF le this] obtain r
      where "sag_scan n p step c ea ?t = Some r" "?t < angle r" "angle r \<le> b"
      by blast
    with assms(1) e show ?thesis by auto
  qed
qed

lemma sag_scan_not_before:
  assumes "0 < step"
    and nb: "\<And>theta. lo < theta \<Longrightarrow> theta \<le> tau
          \<Longrightarrow> \<not> (0 < springForce theta p \<and> torqueBalanced theta p)"
  shows "lo \<le> theta0 \<Longrightarrow> sag_scan n p step c ea theta0 = Some r \<Longrightarrow> tau < angle r"
proof (induction n arbitrary: theta0)
  case 0
  then show ?case by simp
next
  case (Suc n)
  let ?t = "theta0 + step"
  have lt: "lo < ?t" using Suc.prems(1) assms(1) by simp
  show ?case
  proof (cases "past_limit step c ?t")
    case True
    with Suc.prems(2) show ?thesis by (simp only: sag_scan_Suc if_True) simp
  next
    case False
    note np = this
    show ?thesis
    proof (cases "0 < springForce ?t p \<and> torqueBalanced ?t p")
      case True
      with np Suc.prems(2) have r: "angle r = ?t"
        by (simp only: sag_scan_Suc if_False if_True simp_thms) auto
      show ?thesis
      proof (rule ccontr)
        assume "\<not> tau < angle r"
        then have "?t \<le> tau" using r by simp
        from nb [OF lt this] True show False by simp
      qed
    next
      case False
      with np Suc.prems(2) have "sag_scan n p step c ea ?t = Some r"
        by (simp only: sag_scan_Suc if_False simp_thms)
      moreover have "lo \<le> ?t" using lt by simp
      ultimately show ?thesis by (rule Suc.IH [rotated])
    qed
  qed
qed

lemma sag_scan_sagMM:
  "sag_scan n p step c ea theta0 = Some r
     \<Longrightarrow> sagMM r = snd (axlePosition (angle r) (swingarmLength p)) - snd ea"
proof (induction n arbitrary: theta0)
  case 0
  then show ?case by simp
next
  case (Suc n)
  let ?t = "theta0 + step"
  show ?case
  proof (cases "past_limit step c ?t")
    case True
    with Suc.prems show ?thesis by (simp only: sag_scan_Suc if_True) simp
  next
    case False
    note np = this
    show ?thesis
    proof (cases "0 < springForce ?t p \<and> torqueBalanced ?t p")
      case True
      with np Suc.prems show ?thesis
        by (simp only: sag_scan_Suc if_False if_True simp_thms) auto
    next
      case False
      with np Suc.prems have "sag_scan n p step c ea ?t = Some r"
        by (simp only: sag_scan_Suc if_False simp_thms)
      then show ?thesis by (rule Suc.IH)
    qed
  qed
qed

lemma springTorque_alt:
  "springTorque theta p =
     (if shockLength theta p = 0 then None
      else Some (\<bar>(lowerMountDist p * cos theta * (upperMountY p - lowerMountDist p * sin theta)
                  - lowerMountDist p * sin theta * (upperMountX p - lowerMountDist p * cos theta))
                 / shockLength theta p\<bar> * springForce theta p))"
proof -
  have k: "a * (b / l) - c * (d / l) = (a * b - c * d) / l" for a b c d l :: real
    by (simp add: diff_divide_distrib)
  show ?thesis
    unfolding springTorque_def shockLength_def lowerMountPosition_def Let_def fst_conv snd_conv k
    by (rule refl)
qed

lemma dp_springForce:
  "springForce theta (dp r w) = r * max 0 ((280 - shockLength theta DEFAULTS) / (127 / 5))"
  by (simp add: springForce_eq shockCompression_def) (simp add: DEFAULTS_def)

lemma dp_loadTorque: "loadTorque theta (dp r w) = w * \<bar>550 * cos theta\<bar>"
  by (simp add: loadTorque_def axlePosition_def Let_def DEFAULTS_def)

lemma dp_springTorque:
  "springTorque theta (dp r w)
     = Some (\<bar>250 * mount_across theta / shockLength theta DEFAULTS\<bar> * springForce theta (dp r w))"
proof -
  have "250 * c * (240 - 250 * s) - 250 * s * (160 - 250 * c) = 250 * (240 * c - 160 * s)"
    for c s :: real
    by (simp add: algebra_simps)
  from this [of "cos theta" "sin theta"]
  have n: "250 * cos theta * (240 - 250 * sin theta) - 250 * sin theta * (160 - 250 * cos theta)
      = 250 * mount_across theta"
    unfolding mount_across_def .
  have z: "shockLength theta DEFAULTS \<noteq> 0"
    using shockLength_DEFAULTS_pos [of theta] by simp
  have f: "lowerMountDist (dp r w) = 250" "upperMountX (dp r w) = 160" "upperMountY (dp r w) = 240"
    by (simp_all add: DEFAULTS_def)
  have l: "shockLength theta (dp r w) = shockLength theta DEFAULTS"
    by simp
  show ?thesis
    unfolding springTorque_alt f l n using z by simp
qed

lemma along_across_squares: "(mount_across theta)\<^sup>2 + (mount_along theta)\<^sup>2 = 83200"
proof -
  have "(240 * c - 160 * s)\<^sup>2 + (160 * c + 240 * s)\<^sup>2 = 83200 * (c\<^sup>2 + s\<^sup>2)" for c s :: real
    by (simp add: power2_eq_square algebra_simps)
  from this [of "cos theta" "sin theta"] show ?thesis
    unfolding mount_across_def mount_along_def by simp
qed

lemma across_le_shockLength: "\<bar>mount_across theta\<bar> \<le> shockLength theta DEFAULTS"
proof -
  have "0 \<le> (mount_along theta - 250)\<^sup>2" by simp
  then have "0 \<le> (mount_along theta)\<^sup>2 - 500 * mount_along theta + 62500"
    by (simp add: power2_diff algebra_simps)
  with along_across_squares [of theta] have "(mount_across theta)\<^sup>2 \<le> 145700 - 500 * mount_along theta"
    by argo
  then have "\<bar>mount_across theta\<bar>\<^sup>2 \<le> 145700 - 500 * mount_along theta"
    by simp
  then have "\<bar>mount_across theta\<bar> \<le> sqrt (145700 - 500 * mount_along theta)"
    by (rule real_le_rsqrt)
  then show ?thesis
    using dp_shockLength [of theta 600 200] by simp
qed

lemma dp_not_balanced:
  assumes "0 \<le> r" "0 \<le> w"
    and "Lw \<le> shockLength theta DEFAULTS" "Lw \<le> 280" "K \<le> cos theta"
    and "250 * (r * ((280 - Lw) / (127 / 5))) < w * (550 * K)"
  shows "\<not> torqueBalanced theta (dp r w)"
proof -
  let ?len = "shockLength theta DEFAULTS"
  let ?sf = "springForce theta (dp r w)"
  have len: "0 < ?len" by (rule shockLength_DEFAULTS_pos)
  have le: "(280 - ?len) / (127 / 5) \<le> (280 - Lw) / (127 / 5)"
    using assms(3) by (intro divide_right_mono) simp_all
  have z: "0 \<le> (280 - Lw) / (127 / 5)"
    using assms(4) by simp
  have "max 0 ((280 - ?len) / (127 / 5)) \<le> (280 - Lw) / (127 / 5)"
    by (rule max.boundedI [OF z le])
  then have "r * max 0 ((280 - ?len) / (127 / 5)) \<le> r * ((280 - Lw) / (127 / 5))"
    using assms(1) by (rule mult_left_mono)
  then have sf: "?sf \<le> r * ((280 - Lw) / (127 / 5))"
    unfolding dp_springForce .
  have sf0: "0 \<le> ?sf"
    unfolding dp_springForce using assms(1) by simp
  have "\<bar>250 * mount_across theta / ?len\<bar> = 250 * (\<bar>mount_across theta\<bar> / ?len)"
    using len by (simp add: abs_mult)
  moreover have "\<bar>mount_across theta\<bar> / ?len \<le> 1"
    using across_le_shockLength [of theta] len by simp
  ultimately have arm: "\<bar>250 * mount_across theta / ?len\<bar> \<le> 250"
    by simp
  have arm0: "0 \<le> \<bar>250 * mount_across theta / ?len\<bar>" by simp
  have "\<bar>250 * mount_across theta / ?len\<bar> * ?sf \<le> 250 * (r * ((280 - Lw) / (127 / 5)))"
    using arm sf arm0 sf0 by (intro mult_mono) simp_all
  then have st: "\<bar>250 * mount_across theta / ?len\<bar> * ?sf < w * (550 * K)"
    using assms(6) by (rule le_less_trans)
  have "550 * K \<le> \<bar>550 * cos theta\<bar>"
    using assms(5) by simp
  then have "w * (550 * K) \<le> w * \<bar>550 * cos theta\<bar>"
    using assms(2) by (rule mult_left_mono)
  with st have "\<bar>250 * mount_across theta / ?len\<bar> * ?sf < w * \<bar>550 * cos theta\<bar>"
    by (rule less_le_trans)
  then show ?thesis
    unfolding torqueBalanced_def dp_springTorque dp_loadTorque by simp
qed

lemma dp_balanced:
  assumes "0 < r" "0 \<le> w"
    and "shockLength theta DEFAULTS \<le> U" "U < 280" "H \<le> mount_across theta" "0 \<le> H"
    and "w * 550 \<le> 250 * (H / U) * (r * ((280 - U) / (127 / 5)))"
  shows "0 < springForce theta (dp r w) \<and> torqueBalanced theta (dp r w)"
proof -
  let ?len = "shockLength theta DEFAULTS"
  let ?sf = "springForce theta (dp r w)"
  have len: "0 < ?len" by (rule shockLength_DEFAULTS_pos)
  have le: "(280 - U) / (127 / 5) \<le> (280 - ?len) / (127 / 5)"
    using assms(3) by (intro divide_right_mono) simp_all
  have u: "0 < (280 - U) / (127 / 5)"
    using assms(4) by simp
  have m: "(280 - U) / (127 / 5) \<le> max 0 ((280 - ?len) / (127 / 5))"
    by (rule max.coboundedI2 [OF le])
  then have "r * ((280 - U) / (127 / 5)) \<le> r * max 0 ((280 - ?len) / (127 / 5))"
    using assms(1) by (intro mult_left_mono) simp_all
  then have sf: "r * ((280 - U) / (127 / 5)) \<le> ?sf"
    unfolding dp_springForce .
  have "0 < r * ((280 - U) / (127 / 5))"
    using assms(1) u by (rule mult_pos_pos)
  with sf have sfpos: "0 < ?sf" by simp
  have hpos: "0 \<le> mount_across theta" using assms(5,6) by simp
  have "H / U \<le> mount_across theta / ?len"
    using assms(3,5,6) len by (intro frac_le) simp_all
  then have "250 * (H / U) \<le> 250 * (mount_across theta / ?len)" by simp
  moreover have "\<bar>250 * mount_across theta / ?len\<bar> = 250 * (mount_across theta / ?len)"
    using len hpos by simp
  ultimately have arm: "250 * (H / U) \<le> \<bar>250 * mount_across theta / ?len\<bar>" by simp
  have U: "0 < U" using len assms(3) by simp
  have "0 \<le> 250 * (H / U)" using assms(6) U by simp
  moreover have "0 \<le> r * ((280 - U) / (127 / 5))" using assms(1) u by simp
  ultimately have "250 * (H / U) * (r * ((280 - U) / (127 / 5))) \<le> \<bar>250 * mount_across theta / ?len\<bar> * ?sf"
    using arm sf by (intro mult_mono) simp_all
  with assms(7) have st: "w * 550 \<le> \<bar>250 * mount_across theta / ?len\<bar> * ?sf"
    by (rule order_trans)
  have "\<bar>550 * cos theta\<bar> \<le> 550"
    by (simp add: abs_mult)
  then have "w * \<bar>550 * cos theta\<bar> \<le> w * 550"
    using assms(2) by (rule mult_left_mono)
  then have "w * \<bar>550 * cos theta\<bar> \<le> \<bar>250 * mount_across theta / ?len\<bar> * ?sf"
    using st by (rule order_trans)
  then have "torqueBalanced theta (dp r w)"
    unfolding torqueBalanced_def dp_springTorque dp_loadTorque by simp
  with sfpos show ?thesis by simp
qed

lemma DEFAULTS_compressed_nonneg: "0 \<le> fullyCompressedAngle DEFAULTS"
proof (rule ccontr)
  let ?c = "fullyCompressedAngle DEFAULTS"
  assume "\<not> 0 \<le> ?c"
  then have le: "?c \<le> 0" by simp
  have range: "- pi / 2 \<le> ?c"
    using findAngle_range [of "shockFreeLength DEFAULTS - shockStroke DEFAULTS" DEFAULTS]
    unfolding fullyCompressedAngle_def by blast
  have b: "(0::real) \<le> pi / 4" by simp
  have "shockLength 0 DEFAULTS \<le> shockLength ?c DEFAULTS"
    by (rule DEFAULTS_shockLength_antimono [OF range le b])
  moreover have "shockLength 0 DEFAULTS = sqrt 65700"
    using dp_shockLength [of 0 600 200] by (simp add: mount_along_def)
  moreover have "256 \<le> sqrt 65700"
    by (rule real_le_rsqrt) simp
  moreover have "shockLength ?c DEFAULTS < 2251 / 10"
    using DEFAULTS_limits_close(2) by linarith
  ultimately show False by linarith
qed

lemma DEFAULTS_extended_range:
  "- pi / 2 \<le> fullyExtendedAngle DEFAULTS" "fullyExtendedAngle DEFAULTS < fullyCompressedAngle DEFAULTS"
proof -
  show "- pi / 2 \<le> fullyExtendedAngle DEFAULTS"
    using findAngle_range [of "shockFreeLength DEFAULTS" DEFAULTS]
    unfolding fullyExtendedAngle_def by blast
  show "fullyExtendedAngle DEFAULTS < fullyCompressedAngle DEFAULTS"
    using DEFAULTS_extended_bounds(2) DEFAULTS_compressed_nonneg by linarith
qed

lemma dp_computeSag:
  "computeSag (dp r w) =
     (case sag_scan 200000 (dp r w) (1 / 2000) (fullyCompressedAngle DEFAULTS)
             (axlePosition (fullyExtendedAngle DEFAULTS) 550) (fullyExtendedAngle DEFAULTS) of
        Some x \<Rightarrow> x
      | None \<Rightarrow> \<lparr> angle = fullyCompressedAngle DEFAULTS,
                  sagMM = 550 * sin (fullyCompressedAngle DEFAULTS)
                        - 550 * sin (fullyExtendedAngle DEFAULTS) \<rparr>)"
proof -
  have l: "swingarmLength (dp r w) = 550" by (simp add: DEFAULTS_def)
  have a: "snd (axlePosition t 550) = 550 * sin t" for t
    by (simp add: axlePosition_def)
  have s: "(if fullyExtendedAngle DEFAULTS < fullyCompressedAngle DEFAULTS
            then 0.0005 else - 0.0005) = (1 / 2000 :: real)"
    using DEFAULTS_extended_range(2) by simp
  show ?thesis
    unfolding computeSag_def Let_def travel_limits_update l s a
    by (rule refl)
qed

lemma cos_ge_near_zero:
  assumes "- (3 / 20) \<le> (theta::real)" "theta \<le> 0"
  shows "791 / 800 \<le> cos theta"
proof -
  have "\<bar>theta\<bar> \<le> 3 / 20" using assms by simp
  then have "\<bar>theta\<bar>\<^sup>2 \<le> (3 / 20)\<^sup>2" by (intro power_mono) simp_all
  then have "theta\<^sup>2 \<le> 9 / 400" by (simp add: power2_eq_square)
  with cos_ge_quadratic [of theta] show ?thesis by linarith
qed

lemma across_ge_near_zero:
  assumes "- (9 / 100) \<le> theta" "theta \<le> 0"
  shows "239 \<le> mount_across theta"
proof -
  have "\<bar>theta\<bar> \<le> 9 / 100" using assms by simp
  then have "\<bar>theta\<bar>\<^sup>2 \<le> (9 / 100)\<^sup>2" by (intro power_mono) simp_all
  then have "theta\<^sup>2 \<le> 81 / 10000" by (simp add: power2_eq_square)
  with cos_ge_quadratic [of theta] have c: "1 - 81 / 20000 \<le> cos theta" by linarith
  have "0 \<le> - theta" "- theta \<le> pi" using assms pi_ge_two by linarith+
  then have "0 \<le> sin (- theta)" by (rule sin_ge_zero)
  then have "sin theta \<le> 0" by simp
  with c show ?thesis unfolding mount_across_def by linarith
qed

lemma dp_sag_le:
  assumes "0 < r" "0 \<le> w"
    and "- (93 / 2000) \<le> b - 1 / 2000" "b \<le> 0"
    and "shockLength (b - 1 / 2000) DEFAULTS \<le> U" "U < 280"
    and "w * 550 \<le> 250 * (239 / U) * (r * ((280 - U) / (127 / 5)))"
  shows "sagMM (computeSag (dp r w))
       \<le> 550 * sin b - 550 * sin (fullyExtendedAngle DEFAULTS)"
proof -
  let ?e = "fullyExtendedAngle DEFAULTS"
  let ?c = "fullyCompressedAngle DEFAULTS"
  let ?ea = "axlePosition ?e 550"
  have step: "(0::real) < 1 / 2000" by simp
  have bc: "b \<le> ?c" using assms(4) DEFAULTS_compressed_nonneg by linarith
  have bal: "0 < springForce theta (dp r w) \<and> torqueBalanced theta (dp r w)"
    if "b - 1 / 2000 < theta" "theta \<le> b" for theta
  proof -
    have lo: "- pi / 2 \<le> b - 1 / 2000" using assms(3) pi_ge_two by linarith
    have hi: "theta \<le> pi / 4" using that(2) assms(4) pi_ge_zero by linarith
    have le: "b - 1 / 2000 \<le> theta" using that(1) by simp
    have "shockLength theta DEFAULTS \<le> shockLength (b - 1 / 2000) DEFAULTS"
      by (rule DEFAULTS_shockLength_antimono [OF lo le hi])
    then have len: "shockLength theta DEFAULTS \<le> U" using assms(5) by (rule order_trans)
    have "- (9 / 100) \<le> theta" "theta \<le> 0" using that assms(3,4) by linarith+
    then have hh: "239 \<le> mount_across theta" by (rule across_ge_near_zero)
    show ?thesis
      by (rule dp_balanced [OF assms(1,2) len assms(6) hh _ assms(7)]) simp
  qed
  have start: "?e \<le> b - 1 / 2000"
    using DEFAULTS_extended_bounds(2) assms(3) by linarith
  have "b - ?e \<le> 100"
    using DEFAULTS_extended_bounds(1) assms(4) by linarith
  then have fuel: "b - ?e \<le> real 200000 * (1 / 2000)" by simp
  from sag_scan_found_by [OF step bc bal start fuel, of ?ea]
  obtain x where x: "sag_scan 200000 (dp r w) (1 / 2000) ?c ?ea ?e = Some x"
    "?e < angle x" "angle x \<le> b"
    by blast
  have "sagMM x = snd (axlePosition (angle x) (swingarmLength (dp r w))) - snd ?ea"
    using x(1) by (rule sag_scan_sagMM)
  then have s: "sagMM x = 550 * sin (angle x) - 550 * sin ?e"
    by (simp add: axlePosition_def DEFAULTS_def)
  have "- (pi / 2) \<le> angle x" using x(2) DEFAULTS_extended_range(1) by linarith
  moreover have "b \<le> pi / 2" using assms(4) pi_ge_zero by linarith
  ultimately have "sin (angle x) \<le> sin b"
    using x(3) by (intro sin_monotone_2pi_le)
  with s have "sagMM x \<le> 550 * sin b - 550 * sin ?e" by simp
  then show ?thesis
    unfolding dp_computeSag x(1) by simp
qed

lemma dp_sag_gt:
  assumes "0 \<le> r" "0 \<le> w"
    and "- (3 / 20) \<le> tau" "tau < 0"
    and "Lw \<le> shockLength tau DEFAULTS" "Lw \<le> 280"
    and "250 * (r * ((280 - Lw) / (127 / 5))) < w * (550 * (791 / 800))"
  shows "550 * sin tau - 550 * sin (fullyExtendedAngle DEFAULTS)
       < sagMM (computeSag (dp r w))"
proof -
  let ?e = "fullyExtendedAngle DEFAULTS"
  let ?c = "fullyCompressedAngle DEFAULTS"
  let ?ea = "axlePosition ?e 550"
  have step: "(0::real) < 1 / 2000" by simp
  have nb: "\<not> (0 < springForce theta (dp r w) \<and> torqueBalanced theta (dp r w))"
    if "?e < theta" "theta \<le> tau" for theta
  proof -
    have lo: "- pi / 2 \<le> theta" using that(1) DEFAULTS_extended_range(1) by linarith
    have hi: "tau \<le> pi / 4" using assms(4) pi_ge_zero by linarith
    have "shockLength tau DEFAULTS \<le> shockLength theta DEFAULTS"
      by (rule DEFAULTS_shockLength_antimono [OF lo that(2) hi])
    with assms(5) have len: "Lw \<le> shockLength theta DEFAULTS" by (rule order_trans)
    have "- (3 / 20) \<le> theta" "theta \<le> 0"
      using that DEFAULTS_extended_bounds(1) assms(4) by linarith+
    then have c: "791 / 800 \<le> cos theta" by (rule cos_ge_near_zero)
    have "\<not> torqueBalanced theta (dp r w)"
      by (rule dp_not_balanced [OF assms(1,2) len assms(6) c assms(7)])
    then show ?thesis by simp
  qed
  have tc: "tau < ?c" using assms(4) DEFAULTS_compressed_nonneg by linarith
  have tlo: "- (pi / 2) \<le> tau" using assms(3) pi_ge_two by linarith
  have chi: "?c \<le> pi / 2" using DEFAULTS_compressed_bounds(2) pi_ge_zero by linarith
  show ?thesis
  proof (cases "sag_scan 200000 (dp r w) (1 / 2000) ?c ?ea ?e")
    case None
    have "sin tau < sin ?c" by (rule sin_monotone_2pi [OF tlo tc chi])
    then show ?thesis
      unfolding dp_computeSag None by simp
  next
    case (Some x)
    have t: "tau < angle x"
      by (rule sag_scan_not_before [OF step nb order_refl Some])
    have "angle x \<le> ?c"
      using sag_scan_angle_up [OF Some step] by simp
    with chi have "angle x \<le> pi / 2" by linarith
    with tlo t have "sin tau < sin (angle x)" by (intro sin_monotone_2pi)
    moreover have "sagMM x = snd (axlePosition (angle x) (swingarmLength (dp r w))) - snd ?ea"
      using Some by (rule sag_scan_sagMM)
    then have "sagMM x = 550 * sin (angle x) - 550 * sin ?e"
      by (simp add: axlePosition_def DEFAULTS_def)
    ultimately show ?thesis
      unfolding dp_computeSag Some by simp
  qed
qed

lemma dp_sag_thresholds:
  "sagMM (computeSag (dp 1000 200)) \<le> 550 * sin (- (23 / 500)) - 550 * sin (fullyExtendedAngle DEFAULTS)"
  "sagMM (computeSag (dp 600 100)) \<le> 550 * sin (- (23 / 500)) - 550 * sin (fullyExtendedAngle DEFAULTS)"
  "550 * sin (- (23 / 500)) - 550 * sin (fullyExtendedAngle DEFAULTS) < sagMM (computeSag (dp 800 200))"
  "550 * sin (- (23 / 500)) - 550 * sin (fullyExtendedAngle DEFAULTS) < sagMM (computeSag (dp 600 150))"
  "sagMM (computeSag (dp 800 200)) \<le> 550 * sin (- (3 / 100)) - 550 * sin (fullyExtendedAngle DEFAULTS)"
  "sagMM (computeSag (dp 600 150)) \<le> 550 * sin (- (3 / 100)) - 550 * sin (fullyExtendedAngle DEFAULTS)"
  "550 * sin (- (3 / 100)) - 550 * sin (fullyExtendedAngle DEFAULTS) < sagMM (computeSag (dp 600 200))"
  "sagMM (computeSag (dp 600 200)) \<le> 550 * sin (- (9 / 1000)) - 550 * sin (fullyExtendedAngle DEFAULTS)"
  "550 * sin (- (9 / 1000)) - 550 * sin (fullyExtendedAngle DEFAULTS) < sagMM (computeSag (dp 400 200))"
  "550 * sin (- (9 / 1000)) - 550 * sin (fullyExtendedAngle DEFAULTS) < sagMM (computeSag (dp 600 250))"
proof -
  note p = DEFAULTS_shockLength_points
  show "sagMM (computeSag (dp 1000 200)) \<le> 550 * sin (- (23 / 500)) - 550 * sin (fullyExtendedAngle DEFAULTS)"
    by (rule dp_sag_le [where U = "2673 / 10"]) (use p(2) in simp_all)
  show "sagMM (computeSag (dp 600 100)) \<le> 550 * sin (- (23 / 500)) - 550 * sin (fullyExtendedAngle DEFAULTS)"
    by (rule dp_sag_le [where U = "2673 / 10"]) (use p(2) in simp_all)
  show "550 * sin (- (23 / 500)) - 550 * sin (fullyExtendedAngle DEFAULTS) < sagMM (computeSag (dp 800 200))"
    by (rule dp_sag_gt [where Lw = "533 / 2"]) (use p(3) in simp_all)
  show "550 * sin (- (23 / 500)) - 550 * sin (fullyExtendedAngle DEFAULTS) < sagMM (computeSag (dp 600 150))"
    by (rule dp_sag_gt [where Lw = "533 / 2"]) (use p(3) in simp_all)
  show "sagMM (computeSag (dp 800 200)) \<le> 550 * sin (- (3 / 100)) - 550 * sin (fullyExtendedAngle DEFAULTS)"
    by (rule dp_sag_le [where U = 264]) (use p(4) in simp_all)
  show "sagMM (computeSag (dp 600 150)) \<le> 550 * sin (- (3 / 100)) - 550 * sin (fullyExtendedAngle DEFAULTS)"
    by (rule dp_sag_le [where U = 264]) (use p(4) in simp_all)
  show "550 * sin (- (3 / 100)) - 550 * sin (fullyExtendedAngle DEFAULTS) < sagMM (computeSag (dp 600 200))"
    by (rule dp_sag_gt [where Lw = 262]) (use p(5) in simp_all)
  show "sagMM (computeSag (dp 600 200)) \<le> 550 * sin (- (9 / 1000)) - 550 * sin (fullyExtendedAngle DEFAULTS)"
    by (rule dp_sag_le [where U = 259]) (use p(6) in simp_all)
  show "550 * sin (- (9 / 1000)) - 550 * sin (fullyExtendedAngle DEFAULTS) < sagMM (computeSag (dp 400 200))"
    by (rule dp_sag_gt [where Lw = "515 / 2"]) (use p(7) in simp_all)
  show "550 * sin (- (9 / 1000)) - 550 * sin (fullyExtendedAngle DEFAULTS) < sagMM (computeSag (dp 600 250))"
    by (rule dp_sag_gt [where Lw = "515 / 2"]) (use p(7) in simp_all)
qed

lemma dp_sag_chains:
  "sagMM (computeSag (dp 600 200)) < sagMM (computeSag (dp 400 200))"
  "sagMM (computeSag (dp 800 200)) < sagMM (computeSag (dp 600 200))"
  "sagMM (computeSag (dp 1000 200)) < sagMM (computeSag (dp 800 200))"
  "sagMM (computeSag (dp 600 100)) < sagMM (computeSag (dp 600 150))"
  "sagMM (computeSag (dp 600 150)) < sagMM (computeSag (dp 600 200))"
  "sagMM (computeSag (dp 600 200)) < sagMM (computeSag (dp 600 250))"
proof -
  note t = dp_sag_thresholds
  show "sagMM (computeSag (dp 600 200)) < sagMM (computeSag (dp 400 200))"
    using t(8) t(9) by (rule le_less_trans)
  show "sagMM (computeSag (dp 800 200)) < sagMM (computeSag (dp 600 200))"
    using t(5) t(7) by (rule le_less_trans)
  show "sagMM (computeSag (dp 1000 200)) < sagMM (computeSag (dp 800 200))"
    using t(1) t(3) by (rule le_less_trans)
  show "sagMM (computeSag (dp 600 100)) < sagMM (computeSag (dp 600 150))"
    using t(2) t(4) by (rule le_less_trans)
  show "sagMM (computeSag (dp 600 150)) < sagMM (computeSag (dp 600 200))"
    using t(6) t(7) by (rule le_less_trans)
  show "sagMM (computeSag (dp 600 200)) < sagMM (computeSag (dp 600 250))"
    using t(8) t(10) by (rule le_less_trans)
qed

lemma DEFAULTS_overrides:
  "DEFAULTS\<lparr>springRate := r\<rparr> = dp r 200"
  "DEFAULTS\<lparr>load := w\<rparr> = dp 600 w"
  by (simp_all add: DEFAULTS_def)

lemma DEFAULTS_sag_chains:
  "sagMM (computeSag (DEFAULTS\<lparr>springRate := 600\<rparr>)) < sagMM (computeSag (DEFAULTS\<lparr>springRate := 400\<rparr>))"
  "sagMM (computeSag (DEFAULTS\<lparr>springRate := 800\<rparr>)) < sagMM (computeSag (DEFAULTS\<lparr>springRate := 600\<rparr>))"
  "sagMM (computeSag (DEFAULTS\<lparr>springRate := 1000\<rparr>)) < sagMM (computeSag (DEFAULTS\<lparr>springRate := 800\<rparr>))"
  "sagMM (computeSag (DEFAULTS\<lparr>load := 100\<rparr>)) < sagMM (computeSag (DEFAULTS\<lparr>load := 150\<rparr>))"
  "sagMM (computeSag (DEFAULTS\<lparr>load := 150\<rparr>)) < sagMM (computeSag (DEFAULTS\<lparr>load := 200\<rparr>))"
  "sagMM (computeSag (DEFAULTS\<lparr>load := 200\<rparr>)) < sagMM (computeSag (DEFAULTS\<lparr>load := 250\<rparr>))"
  using dp_sag_chains(1,2,3) [folded DEFAULTS_overrides(1)]
    dp_sag_chains(4,5,6) [folded DEFAULTS_overrides(2)]
  by blast+

lemma sag_scan_mono:
  assumes step: "0 < step"
    and imp: "\<And>theta. 0 < springForce theta p \<and> torqueBalanced theta p
        \<Longrightarrow> 0 < springForce theta p' \<and> torqueBalanced theta p'"
    and len: "swingarmLength p' = swingarmLength p" "0 \<le> swingarmLength p"
    and c: "c \<le> pi / 2"
  shows "- (pi / 2) \<le> theta0 \<Longrightarrow>
    (case sag_scan n p' step c ea theta0 of Some r \<Rightarrow> sagMM r
       | None \<Rightarrow> swingarmLength p * sin c - snd ea)
    \<le> (case sag_scan n p step c ea theta0 of Some r \<Rightarrow> sagMM r
       | None \<Rightarrow> swingarmLength p * sin c - snd ea)"
proof (induction n arbitrary: theta0)
  case 0
  show ?case by simp
next
  case (Suc n)
  let ?t = "theta0 + step"
  let ?L = "swingarmLength p"
  have tlo: "- (pi / 2) \<le> ?t" using Suc.prems step by simp
  show ?case
  proof (cases "past_limit step c ?t")
    case True
    then show ?thesis by (simp only: sag_scan_Suc if_True option.case order_refl)
  next
    case False
    note np = this
    with step have tc: "?t \<le> c" by (simp add: past_limit_def)
    show ?thesis
    proof (cases "0 < springForce ?t p' \<and> torqueBalanced ?t p'")
      case True
      note b' = this
      have e': "sag_scan (Suc n) p' step c ea theta0
          = Some \<lparr> angle = ?t, sagMM = snd (axlePosition ?t (swingarmLength p')) - snd ea \<rparr>"
        by (simp only: sag_scan_Suc np b' if_False if_True simp_thms)
      have v': "(case sag_scan (Suc n) p' step c ea theta0 of Some r \<Rightarrow> sagMM r
          | None \<Rightarrow> ?L * sin c - snd ea) = ?L * sin ?t - snd ea"
        unfolding e' by (simp add: axlePosition_def len(1))
      show ?thesis
      proof (cases "0 < springForce ?t p \<and> torqueBalanced ?t p")
        case True
        have "sag_scan (Suc n) p step c ea theta0
            = Some \<lparr> angle = ?t, sagMM = snd (axlePosition ?t ?L) - snd ea \<rparr>"
          by (simp only: sag_scan_Suc np True if_False if_True simp_thms)
        then show ?thesis
          unfolding v' by (simp add: axlePosition_def)
      next
        case False
        have e: "sag_scan (Suc n) p step c ea theta0 = sag_scan n p step c ea ?t"
          by (simp only: sag_scan_Suc np False if_False simp_thms)
        show ?thesis
        proof (cases "sag_scan n p step c ea ?t")
          case None
          have "sin ?t \<le> sin c" by (rule sin_monotone_2pi_le [OF tlo tc c])
          then have "?L * sin ?t \<le> ?L * sin c" using len(2) by (rule mult_left_mono)
          then show ?thesis unfolding v' e None by simp
        next
          case (Some r)
          have a: "?t < angle r \<and> angle r \<le> c" by (rule sag_scan_angle_up [OF Some step])
          then have "angle r \<le> pi / 2" using c by linarith
          moreover have "?t \<le> angle r" using a by simp
          ultimately have "sin ?t \<le> sin (angle r)"
            using tlo by (intro sin_monotone_2pi_le)
          then have "?L * sin ?t \<le> ?L * sin (angle r)" using len(2) by (rule mult_left_mono)
          moreover have "sagMM r = snd (axlePosition (angle r) ?L) - snd ea"
            using Some by (rule sag_scan_sagMM)
          then have "sagMM r = ?L * sin (angle r) - snd ea"
            by (simp add: axlePosition_def)
          ultimately show ?thesis unfolding v' e Some by simp
        qed
      qed
    next
      case False
      note nb' = this
      have nb: "\<not> (0 < springForce ?t p \<and> torqueBalanced ?t p)"
        using imp [of ?t] nb' by blast
      have e': "sag_scan (Suc n) p' step c ea theta0 = sag_scan n p' step c ea ?t"
        by (simp only: sag_scan_Suc np nb' if_False simp_thms)
      have e: "sag_scan (Suc n) p step c ea theta0 = sag_scan n p step c ea ?t"
        by (simp only: sag_scan_Suc np nb if_False simp_thms)
      show ?thesis unfolding e e' by (rule Suc.IH [OF tlo])
    qed
  qed
qed

lemma computeSag_le:
  assumes lt: "fullyExtendedAngle p < fullyCompressedAngle p"
    and same: "fullyExtendedAngle p' = fullyExtendedAngle p"
      "fullyCompressedAngle p' = fullyCompressedAngle p"
      "swingarmLength p' = swingarmLength p"
    and L: "0 \<le> swingarmLength p"
    and imp: "\<And>theta. 0 < springForce theta p \<and> torqueBalanced theta p
        \<Longrightarrow> 0 < springForce theta p' \<and> torqueBalanced theta p'"
  shows "sagMM (computeSag p') \<le> sagMM (computeSag p)"
proof -
  let ?e = "fullyExtendedAngle p" and ?c = "fullyCompressedAngle p"
  let ?ea = "axlePosition ?e (swingarmLength p)"
  have v: "sagMM (computeSag q) =
      (case sag_scan 200000 q 0.0005 ?c ?ea ?e of Some r \<Rightarrow> sagMM r
         | None \<Rightarrow> swingarmLength p * sin ?c - snd ?ea)"
    if "fullyExtendedAngle q = ?e" "fullyCompressedAngle q = ?c" "swingarmLength q = swingarmLength p"
    for q
    unfolding computeSag_def Let_def that using lt
    by (simp add: axlePosition_def split: option.split)
  have step: "(0::real) < 0.0005" by simp
  have c: "?c \<le> pi / 2"
    using findAngle_range [of "shockFreeLength p - shockStroke p" p] pi_ge_zero
    unfolding fullyCompressedAngle_def by linarith
  have e: "- (pi / 2) \<le> ?e"
    using findAngle_range [of "shockFreeLength p" p]
    unfolding fullyExtendedAngle_def by linarith
  show ?thesis
    unfolding v [OF same] v [OF refl refl refl]
    by (rule sag_scan_mono [OF step imp same(3) L c e])
qed

lemma torqueBalanced_alt:
  "torqueBalanced theta p \<longleftrightarrow>
     shockLength theta p \<noteq> 0
     \<and> loadTorque theta p
         \<le> \<bar>(lowerMountDist p * cos theta * (upperMountY p - lowerMountDist p * sin theta)
              - lowerMountDist p * sin theta * (upperMountX p - lowerMountDist p * cos theta))
             / shockLength theta p\<bar> * springForce theta p"
  by (simp add: torqueBalanced_def springTorque_alt)

lemma springForce_springRate:
  "springForce theta (p\<lparr>springRate := r\<rparr>)
     = r * max 0 ((shockCompression theta p + preload p) / 25.4)"
  by (simp add: springForce_eq shockCompression_def)

lemma springRate_balance_mono:
  assumes "r \<le> r'"
    and "0 < springForce theta (p\<lparr>springRate := r\<rparr>)
       \<and> torqueBalanced theta (p\<lparr>springRate := r\<rparr>)"
  shows "0 < springForce theta (p\<lparr>springRate := r'\<rparr>)
       \<and> torqueBalanced theta (p\<lparr>springRate := r'\<rparr>)"
proof -
  define m where "m = max 0 ((shockCompression theta p + preload p) / 25.4)"
  define A where "A = \<bar>(lowerMountDist p * cos theta * (upperMountY p - lowerMountDist p * sin theta)
              - lowerMountDist p * sin theta * (upperMountX p - lowerMountDist p * cos theta))
             / shockLength theta p\<bar>"
  have m0: "0 \<le> m" unfolding m_def by simp
  have A0: "0 \<le> A" unfolding A_def by simp
  have sf: "springForce theta (p\<lparr>springRate := x\<rparr>) = x * m" for x
    unfolding m_def by (rule springForce_springRate)
  have tb: "torqueBalanced theta (p\<lparr>springRate := x\<rparr>)
      \<longleftrightarrow> shockLength theta p \<noteq> 0 \<and> loadTorque theta p \<le> A * (x * m)" for x
    unfolding torqueBalanced_alt sf A_def by (simp add: loadTorque_def)
  from assms(2) have pos: "0 < r * m" and len: "shockLength theta p \<noteq> 0"
    and bal: "loadTorque theta p \<le> A * (r * m)"
    unfolding sf tb by blast+
  from pos m0 have "0 < m" "0 < r"
    by (auto simp add: zero_less_mult_iff)
  with assms(1) have pos': "0 < r' * m" by simp
  have "r * m \<le> r' * m" using assms(1) m0 by (rule mult_right_mono)
  then have "A * (r * m) \<le> A * (r' * m)" using A0 by (rule mult_left_mono)
  with bal have "loadTorque theta p \<le> A * (r' * m)" by (rule order_trans)
  with pos' len show ?thesis unfolding sf tb by blast
qed

lemma load_balance_mono:
  assumes "w \<le> w'"
    and "0 < springForce theta (p\<lparr>load := w'\<rparr>) \<and> torqueBalanced theta (p\<lparr>load := w'\<rparr>)"
  shows "0 < springForce theta (p\<lparr>load := w\<rparr>) \<and> torqueBalanced theta (p\<lparr>load := w\<rparr>)"
proof -
  define B where "B = \<bar>fst (axlePosition theta (swingarmLength p))\<bar>"
  define S where "S = \<bar>(lowerMountDist p * cos theta * (upperMountY p - lowerMountDist p * sin theta)
              - lowerMountDist p * sin theta * (upperMountX p - lowerMountDist p * cos theta))
             / shockLength theta p\<bar> * springForce theta p"
  have sf: "springForce theta (p\<lparr>load := x\<rparr>) = springForce theta p" for x
    by (simp add: springForce_eq shockCompression_def)
  have tb: "torqueBalanced theta (p\<lparr>load := x\<rparr>)
      \<longleftrightarrow> shockLength theta p \<noteq> 0 \<and> x * B \<le> S" for x
    unfolding torqueBalanced_alt sf S_def B_def by (simp add: loadTorque_def Let_def)
  have B0: "0 \<le> B" unfolding B_def by simp
  from assms(2) have pos: "0 < springForce theta p" and len: "shockLength theta p \<noteq> 0"
    and bal: "w' * B \<le> S"
    unfolding sf tb by blast+
  have "w * B \<le> w' * B" using assms(1) B0 by (rule mult_right_mono)
  then have "w * B \<le> S" using bal by (rule order_trans)
  with pos len show ?thesis unfolding sf tb by blast
qed

lemma zero_load_balance:
  assumes "load p = 0" "0 < r'"
    and "0 < springForce theta (p\<lparr>springRate := r\<rparr>)
       \<and> torqueBalanced theta (p\<lparr>springRate := r\<rparr>)"
  shows "0 < springForce theta (p\<lparr>springRate := r'\<rparr>)
       \<and> torqueBalanced theta (p\<lparr>springRate := r'\<rparr>)"
proof -
  define m where "m = max 0 ((shockCompression theta p + preload p) / 25.4)"
  define A where "A = \<bar>(lowerMountDist p * cos theta * (upperMountY p - lowerMountDist p * sin theta)
              - lowerMountDist p * sin theta * (upperMountX p - lowerMountDist p * cos theta))
             / shockLength theta p\<bar>"
  have m0: "0 \<le> m" unfolding m_def by simp
  have A0: "0 \<le> A" unfolding A_def by simp
  have sf: "springForce theta (p\<lparr>springRate := x\<rparr>) = x * m" for x
    unfolding m_def by (rule springForce_springRate)
  have lt: "loadTorque theta p = 0"
    using assms(1) by (simp add: loadTorque_def Let_def)
  have tb: "torqueBalanced theta (p\<lparr>springRate := x\<rparr>)
      \<longleftrightarrow> shockLength theta p \<noteq> 0 \<and> 0 \<le> A * (x * m)" for x
    unfolding torqueBalanced_alt sf A_def lt [symmetric] by (simp add: loadTorque_def)
  from assms(3) have pos: "0 < r * m" and len: "shockLength theta p \<noteq> 0"
    unfolding sf tb by blast+
  from pos m0 have "0 < m"
    by (auto simp add: zero_less_mult_iff)
  with assms(2) have pos': "0 < r' * m" by simp
  then have "0 \<le> A * (r' * m)" using A0 by simp
  with pos' len show ?thesis unfolding sf tb by blast
qed

lemma computeSag_springRate_mono:
  assumes "fullyExtendedAngle p < fullyCompressedAngle p" "0 \<le> swingarmLength p" "r \<le> r'"
  shows "sagMM (computeSag (p\<lparr>springRate := r'\<rparr>)) \<le> sagMM (computeSag (p\<lparr>springRate := r\<rparr>))"
proof (rule computeSag_le)
  show "fullyExtendedAngle (p\<lparr>springRate := r\<rparr>) < fullyCompressedAngle (p\<lparr>springRate := r\<rparr>)"
    using assms(1) by simp
  show "0 \<le> swingarmLength (p\<lparr>springRate := r\<rparr>)"
    using assms(2) by simp
  show "0 < springForce theta (p\<lparr>springRate := r'\<rparr>) \<and> torqueBalanced theta (p\<lparr>springRate := r'\<rparr>)"
    if "0 < springForce theta (p\<lparr>springRate := r\<rparr>) \<and> torqueBalanced theta (p\<lparr>springRate := r\<rparr>)"
    for theta
    using assms(3) that by (rule springRate_balance_mono)
qed simp_all

lemma computeSag_load_mono:
  assumes "fullyExtendedAngle p < fullyCompressedAngle p" "0 \<le> swingarmLength p" "w \<le> w'"
  shows "sagMM (computeSag (p\<lparr>load := w\<rparr>)) \<le> sagMM (computeSag (p\<lparr>load := w'\<rparr>))"
proof (rule computeSag_le)
  show "fullyExtendedAngle (p\<lparr>load := w'\<rparr>) < fullyCompressedAngle (p\<lparr>load := w'\<rparr>)"
    using assms(1) by simp
  show "0 \<le> swingarmLength (p\<lparr>load := w'\<rparr>)"
    using assms(2) by simp
  show "0 < springForce theta (p\<lparr>load := w\<rparr>) \<and> torqueBalanced theta (p\<lparr>load := w\<rparr>)"
    if "0 < springForce theta (p\<lparr>load := w'\<rparr>) \<and> torqueBalanced theta (p\<lparr>load := w'\<rparr>)"
    for theta
    using assms(3) that by (rule load_balance_mono)
qed simp_all

text \<open>
  Claim C2, as stated, fails: the sag is not strictly decreasing in the spring rate.
  With a load of 0 the load torque is 0, the scan returns at the first angle with a
  positive spring force, and that angle does not depend on the spring rate: the
  defaults with load 0 have the same sag at spring rate 600 as at 400.
\<close>

theorem computeSag_strict_counterexample:
  "\<not> sagMM (computeSag (DEFAULTS\<lparr>load := 0, springRate := 600\<rparr>))
      < sagMM (computeSag (DEFAULTS\<lparr>load := 0, springRate := 400\<rparr>))"
proof -
  let ?p = "DEFAULTS\<lparr>load := 0\<rparr>"
  have "sagMM (computeSag (?p\<lparr>springRate := 400\<rparr>)) \<le> sagMM (computeSag (?p\<lparr>springRate := 600\<rparr>))"
  proof (rule computeSag_le)
    show "fullyExtendedAngle (?p\<lparr>springRate := 600\<rparr>) < fullyCompressedAngle (?p\<lparr>springRate := 600\<rparr>)"
      using DEFAULTS_extended_range(2) by simp
    show "0 \<le> swingarmLength (?p\<lparr>springRate := 600\<rparr>)"
      by (simp add: DEFAULTS_def)
    show "0 < springForce theta (?p\<lparr>springRate := 400\<rparr>) \<and> torqueBalanced theta (?p\<lparr>springRate := 400\<rparr>)"
      if "0 < springForce theta (?p\<lparr>springRate := 600\<rparr>) \<and> torqueBalanced theta (?p\<lparr>springRate := 600\<rparr>)"
      for theta
      using _ _ that by (rule zero_load_balance) simp_all
  qed simp_all
  then show ?thesis by simp
qed

text \<open>
  Claim C2, amended.  Holding every other field constant, for a parameter set with a
  non-negative swingarm length whose fully extended angle lies below its fully
  compressed angle, the sag is non-increasing in the spring rate (fixed load) and
  non-decreasing in the load (fixed spring rate).  With the defaults, raising the
  spring rate through 400, 600, 800, 1000 (load 200) strictly decreases the sag at
  each step, and raising the load through 100, 150, 200, 250 (spring rate 600)
  strictly increases it at each step.
\<close>

theorem computeSag_monotone:
  "(fullyExtendedAngle p < fullyCompressedAngle p \<and> 0 \<le> swingarmLength p \<and> r \<le> r'
      \<longrightarrow> sagMM (computeSag (p\<lparr>springRate := r'\<rparr>)) \<le> sagMM (computeSag (p\<lparr>springRate := r\<rparr>)))
   \<and> (fullyExtendedAngle p < fullyCompressedAngle p \<and> 0 \<le> swingarmLength p \<and> w \<le> w'
      \<longrightarrow> sagMM (computeSag (p\<lparr>load := w\<rparr>)) \<le> sagMM (computeSag (p\<lparr>load := w'\<rparr>)))
   \<and> sagMM (computeSag (DEFAULTS\<lparr>springRate := 600\<rparr>))
       < sagMM (computeSag (DEFAULTS\<lparr>springRate := 400\<rparr>))
   \<and> sagMM (computeSag (DEFAULTS\<lparr>springRate := 800\<rparr>))
       < sagMM (computeSag (DEFAULTS\<lparr>springRate := 600\<rparr>))
   \<and> sagMM (computeSag (DEFAULTS\<lparr>springRate := 1000\<rparr>))
       < sagMM (computeSag (DEFAULTS\<lparr>springRate := 800\<rparr>))
   \<and> sagMM (computeSag (DEFAULTS\<lparr>load := 100\<rparr>))
       < sagMM (computeSag (DEFAULTS\<lparr>load := 150\<rparr>))
   \<and> sagMM (computeSag (DEFAULTS\<lparr>load := 150\<rparr>))
       < sagMM (computeSag (DEFAULTS\<lparr>load := 200\<rparr>))
   \<and> sagMM (computeSag (DEFAULTS\<lparr>load := 200\<rparr>))
       < sagMM (computeSag (DEFAULTS\<lparr>load := 250\<rparr>))"
  using computeSag_springRate_mono [of p r r'] computeSag_load_mono [of p w w']
    DEFAULTS_sag_chains
  by blast

theorem computeSag_monotone_witness:
  "fullyExtendedAngle DEFAULTS < fullyCompressedAngle DEFAULTS
   \<and> 0 \<le> swingarmLength DEFAULTS
   \<and> (400::real) \<le> 600
   \<and> sagMM (computeSag (DEFAULTS\<lparr>springRate := 600\<rparr>))
       \<le> sagMM (computeSag (DEFAULTS\<lparr>springRate := 400\<rparr>))
   \<and> (100::real) \<le> 150
   \<and> sagMM (computeSag (DEFAULTS\<lparr>load := 100\<rparr>))
       \<le> sagMM (computeSag (DEFAULTS\<lparr>load := 150\<rparr>))"
proof -
  have l: "0 \<le> swingarmLength DEFAULTS"
    by (simp add: DEFAULTS_def)
  have r: "(400::real) \<le> 600" and w: "(100::real) \<le> 150"
    by simp_all
  show ?thesis
    using computeSag_monotone [of DEFAULTS 400 600 100 150] DEFAULTS_extended_range(2) l r w
    by blast
qed

section \<open>The scan on the default geometry\<close>

lemma scanned_between:
  assumes "0 < step"
  shows "theta \<in> set (scanned n p step c theta0) \<Longrightarrow> theta0 < theta \<and> theta \<le> c"
proof (induction n arbitrary: theta0)
  case 0
  then show ?case by simp
next
  case (Suc n)
  let ?t = "theta0 + step"
  show ?case
  proof (cases "past_limit step c ?t")
    case True
    with Suc.prems show ?thesis by (simp only: scanned_Suc if_True) simp
  next
    case False
    note np = this
    with assms have tc: "?t \<le> c" by (simp add: past_limit_def)
    show ?thesis
    proof (cases "0 < springForce ?t p \<and> torqueBalanced ?t p")
      case True
      with np Suc.prems have "theta = ?t"
        by (simp only: scanned_Suc if_False if_True simp_thms) simp
      with tc assms show ?thesis by simp
    next
      case False
      with np Suc.prems have "theta = ?t \<or> theta \<in> set (scanned n p step c ?t)"
        by (simp only: scanned_Suc if_False simp_thms) simp
      then show ?thesis
      proof
        assume "theta = ?t"
        with tc assms show ?thesis by simp
      next
        assume "theta \<in> set (scanned n p step c ?t)"
        from Suc.IH [OF this] assms show ?thesis by simp
      qed
    qed
  qed
qed

lemma scanned_nonempty:
  assumes "0 < step" "theta0 + step \<le> c"
  shows "scanned (Suc n) p step c theta0 \<noteq> []"
proof -
  have np: "\<not> past_limit step c (theta0 + step)"
    using assms by (simp add: past_limit_def)
  show ?thesis
    by (cases "0 < springForce (theta0 + step) p \<and> torqueBalanced (theta0 + step) p")
      (simp_all only: scanned_Suc np if_False if_True simp_thms list.distinct)
qed

lemma dp_scannedAngles:
  "scannedAngles (dp r w)
     = scanned 200000 (dp r w) (1 / 2000) (fullyCompressedAngle DEFAULTS) (fullyExtendedAngle DEFAULTS)"
proof -
  have s: "(if fullyExtendedAngle DEFAULTS < fullyCompressedAngle DEFAULTS
            then 0.0005 else - 0.0005) = (1 / 2000 :: real)"
    using DEFAULTS_extended_range(2) by simp
  show ?thesis
    unfolding scannedAngles_def Let_def travel_limits_update s by (rule refl)
qed

lemma dp_scannedAngles_nonempty: "scannedAngles (dp r w) \<noteq> []"
proof -
  have n: "(200000::nat) = Suc 199999" by simp
  have "fullyExtendedAngle DEFAULTS + 1 / 2000 \<le> fullyCompressedAngle DEFAULTS"
    using DEFAULTS_extended_bounds(2) DEFAULTS_compressed_nonneg by linarith
  then show ?thesis
    unfolding dp_scannedAngles n by (intro scanned_nonempty) simp_all
qed

lemma dp_scannedAngles_between:
  assumes "theta \<in> set (scannedAngles (dp r w))"
  shows "fullyExtendedAngle DEFAULTS < theta \<and> theta \<le> fullyCompressedAngle DEFAULTS"
  using assms unfolding dp_scannedAngles by (intro scanned_between) simp_all

lemma cos_ge_half:
  assumes "- (3 / 20) \<le> theta" "theta \<le> pi / 4"
  shows "1 / 2 \<le> cos theta"
proof (cases "theta \<le> 0")
  case True
  with assms(1) have "791 / 800 \<le> cos theta" by (rule cos_ge_near_zero)
  then show ?thesis by linarith
next
  case False
  then have "0 \<le> theta" by simp
  then have "cos (pi / 4) \<le> cos theta"
    using assms(2) by (intro cos_monotone_0_pi_le) simp_all
  moreover have "1 \<le> sqrt 2" by simp
  ultimately show ?thesis unfolding cos_45 by linarith
qed

lemma dp_heavy_load_unbalanced:
  assumes "theta \<in> set (scannedAngles (dp 600 (10 ^ 9)))"
  shows "\<not> torqueBalanced theta (dp 600 (10 ^ 9))"
proof -
  note b = dp_scannedAngles_between [OF assms]
  have "- (3 / 20) \<le> theta" using b DEFAULTS_extended_bounds(1) by linarith
  moreover have "theta \<le> pi / 4" using b DEFAULTS_compressed_bounds(2) by linarith
  ultimately have c: "1 / 2 \<le> cos theta" by (rule cos_ge_half)
  have l: "0 \<le> shockLength theta DEFAULTS" by (rule shockLength_nonneg)
  show ?thesis
    by (rule dp_not_balanced [OF _ _ l _ c]) simp_all
qed

text \<open>
  A load of \<open>1e9\<close> lbs on the defaults: the scan visits at least one angle, no angle
  it visits balances the torques, and \<^verbatim>\<open>computeSag\<close> returns the bottomed-out result.
\<close>

theorem computeSag_bottomed_out_witness:
  "scannedAngles (DEFAULTS\<lparr>load := 10 ^ 9\<rparr>) \<noteq> []
   \<and> list_all (\<lambda>theta. \<not> torqueBalanced theta (DEFAULTS\<lparr>load := 10 ^ 9\<rparr>))
        (scannedAngles (DEFAULTS\<lparr>load := 10 ^ 9\<rparr>))
   \<and> computeSag (DEFAULTS\<lparr>load := 10 ^ 9\<rparr>) =
     \<lparr> angle = fullyCompressedAngle DEFAULTS,
       sagMM = 550 * sin (fullyCompressedAngle DEFAULTS) - 550 * sin (fullyExtendedAngle DEFAULTS) \<rparr>"
proof -
  let ?p = "DEFAULTS\<lparr>load := 10 ^ 9\<rparr>"
  have e: "?p = dp 600 (10 ^ 9)" by (simp add: DEFAULTS_def)
  have ne: "scannedAngles ?p \<noteq> []"
    unfolding e by (rule dp_scannedAngles_nonempty)
  have h: "\<forall>theta \<in> set (scannedAngles ?p). \<not> torqueBalanced theta ?p"
    unfolding e using dp_heavy_load_unbalanced by blast
  have "computeSag ?p = \<lparr> angle = fullyCompressedAngle ?p,
       sagMM = snd (axlePosition (fullyCompressedAngle ?p) (swingarmLength ?p))
             - snd (axlePosition (fullyExtendedAngle ?p) (swingarmLength ?p)) \<rparr>"
    using h by (rule computeSag_bottomed_out)
  then have "computeSag ?p = \<lparr> angle = fullyCompressedAngle DEFAULTS,
       sagMM = 550 * sin (fullyCompressedAngle DEFAULTS) - 550 * sin (fullyExtendedAngle DEFAULTS) \<rparr>"
    by (simp add: axlePosition_def) (simp add: DEFAULTS_def)
  with ne h show ?thesis
    by (simp add: list_all_iff)
qed

text \<open>
  The defaults: the scan visits at least one angle, and the shock length is positive at
  every angle (the upper mount is not at the lower mount's distance from the pivot).
\<close>

theorem computeSag_division_defined_witness:
  "scannedAngles DEFAULTS \<noteq> []
   \<and> list_all (\<lambda>theta. 0 < shockLength theta DEFAULTS) (scannedAngles DEFAULTS)
   \<and> list_all (\<lambda>theta. springTorque theta DEFAULTS \<noteq> None) (scannedAngles DEFAULTS)"
proof -
  have e: "DEFAULTS = dp 600 200" by (simp add: DEFAULTS_def)
  have ne: "scannedAngles DEFAULTS \<noteq> []"
    by (subst e) (rule dp_scannedAngles_nonempty)
  have h: "\<forall>theta \<in> set (scannedAngles DEFAULTS). 0 < shockLength theta DEFAULTS"
    by (simp add: shockLength_DEFAULTS_pos)
  from ne h computeSag_division_defined [OF h] show ?thesis
    by (simp add: list_all_iff)
qed

section \<open>Both branches of the motion ratio\<close>

text \<open>
  Both branches of \<^verbatim>\<open>motionRatio\<close> are taken.  With the lower shock mount on the pivot
  the shock length does not depend on the angle, the compression difference is 0 and the
  result is 0.  With the defaults at -0.03 rad the compression difference is at least
  1/60 mm and the result is the quotient.
\<close>

lemma along_diff:
  "mount_along b - mount_along a = 2 * sin ((b - a) / 2) * mount_across ((b + a) / 2)"
proof -
  let ?m = "(b + a) / 2"
  let ?d = "(b - a) / 2"
  have "cos b - cos a = 2 * sin ?m * sin ((a - b) / 2)"
    by (rule cos_diff_cos)
  moreover have "(a - b) / 2 = - ?d" by argo
  then have "sin ((a - b) / 2) = - sin ?d" by (simp only: sin_minus)
  ultimately have c: "cos b - cos a = - (2 * sin ?d * sin ?m)" by simp
  have s: "sin b - sin a = 2 * sin ?d * cos ?m"
    by (rule sin_diff_sin)
  have "mount_along b - mount_along a = 160 * (cos b - cos a) + 240 * (sin b - sin a)"
    by (simp add: mount_along_def algebra_simps)
  also have "\<dots> = 2 * sin ?d * mount_across ?m"
    unfolding c s mount_across_def by (simp add: algebra_simps)
  finally show ?thesis .
qed

lemma sqrt_diff_ge:
  assumes "0 \<le> y" "y \<le> x" "x \<le> B\<^sup>2" "0 < B"
  shows "(x - y) / (2 * B) \<le> sqrt x - sqrt y"
proof -
  have sx: "sqrt x \<le> B" using assms(3,4) by (intro real_le_lsqrt) simp_all
  have sy: "sqrt y \<le> sqrt x" using assms(2) by simp
  have sy0: "0 \<le> sqrt y" using assms(1) by simp
  have "x - y = (sqrt x)\<^sup>2 - (sqrt y)\<^sup>2"
    using assms(1,2) by simp
  also have "\<dots> = (sqrt x - sqrt y) * (sqrt x + sqrt y)"
    by (simp add: power2_eq_square algebra_simps)
  also have "\<dots> \<le> (sqrt x - sqrt y) * (2 * B)"
  proof (rule mult_left_mono)
    show "sqrt x + sqrt y \<le> 2 * B" using sx sy by linarith
    show "0 \<le> sqrt x - sqrt y" using sy by linarith
  qed
  finally have "x - y \<le> (sqrt x - sqrt y) * (2 * B)" .
  then show ?thesis
    using assms(4) by (simp add: divide_le_eq)
qed

lemma along_bounds: "- 289 \<le> mount_along theta" "mount_along theta \<le> 289"
proof -
  have "0 \<le> (mount_across theta)\<^sup>2" by simp
  with along_across_squares [of theta] have "(mount_along theta)\<^sup>2 \<le> 83200"
    by linarith
  also have "(83200::real) \<le> 289\<^sup>2" by simp
  finally have "\<bar>mount_along theta\<bar> \<le> \<bar>289\<bar>"
    by (simp only: abs_le_square_iff)
  then show "- 289 \<le> mount_along theta" "mount_along theta \<le> 289"
    by simp_all
qed

lemma DEFAULTS_compression_difference:
  "1 / 10 ^ 10 \<le> \<bar>shockCompression (- (3 / 100) + 0.0001) DEFAULTS
                    - shockCompression (- (3 / 100) - 0.0001) DEFAULTS\<bar>"
proof -
  let ?a = "- (3 / 100) - 0.0001 :: real" and ?b = "- (3 / 100) + 0.0001 :: real"
  have d: "(?b - ?a) / 2 = 1 / 10000" and m: "(?b + ?a) / 2 = - (3 / 100)"
    by simp_all
  have s1: "(1::real) / 10000 - (1 / 10000) ^ 3 / 6 \<le> sin (1 / 10000)"
    by (rule sin_ge_cubic) simp
  have s2: "(9::real) / 100000 \<le> 1 / 10000 - (1 / 10000) ^ 3 / 6"
    by (simp add: power3_eq_cube)
  have s: "(9::real) / 100000 \<le> sin (1 / 10000)" by (rule order_trans [OF s2 s1])
  have h: "239 \<le> mount_across (- (3 / 100))"
    by (rule across_ge_near_zero) simp_all
  have "2 * (9 / 100000) * 239 \<le> 2 * sin (1 / 10000) * mount_across (- (3 / 100))"
    using s h by (intro mult_mono) simp_all
  then have "1 / 25 \<le> mount_along ?b - mount_along ?a"
    unfolding along_diff d m by simp
  then have g: "20 \<le> (145700 - 500 * mount_along ?a) - (145700 - 500 * mount_along ?b)"
    by linarith
  have y0: "0 \<le> 145700 - 500 * mount_along ?b"
    using along_bounds(2) [of ?b] by linarith
  have yx: "145700 - 500 * mount_along ?b \<le> 145700 - 500 * mount_along ?a"
    using g by linarith
  have xB: "145700 - 500 * mount_along ?a \<le> 600\<^sup>2"
    using along_bounds(1) [of ?a] by simp
  have "20 / (2 * 600) \<le> ((145700 - 500 * mount_along ?a) - (145700 - 500 * mount_along ?b)) / (2 * 600)"
    using g by (intro divide_right_mono) simp_all
  also have "\<dots> \<le> sqrt (145700 - 500 * mount_along ?a) - sqrt (145700 - 500 * mount_along ?b)"
    by (rule sqrt_diff_ge [OF y0 yx xB]) simp
  finally have "1 / 60 \<le> shockLength ?a DEFAULTS - shockLength ?b DEFAULTS"
    using dp_shockLength [of ?a 600 200] dp_shockLength [of ?b 600 200] by simp
  then have "1 / 60 \<le> shockCompression ?b DEFAULTS - shockCompression ?a DEFAULTS"
    by (simp add: shockCompression_def)
  moreover have "(1::real) / 10 ^ 10 \<le> 1 / 60" by simp
  ultimately show ?thesis by linarith
qed

lemma point_mount_compression_difference:
  "\<bar>shockCompression (theta + 0.0001) (DEFAULTS\<lparr>lowerMountDist := 0\<rparr>)
     - shockCompression (theta - 0.0001) (DEFAULTS\<lparr>lowerMountDist := 0\<rparr>)\<bar> < 1 / 10 ^ 10"
  by (simp add: shockCompression_def shockLength_def lowerMountPosition_def)

lemma motionRatio_point_mount:
  "motionRatio theta (DEFAULTS\<lparr>lowerMountDist := 0\<rparr>) = 0"
  using point_mount_compression_difference [of theta]
  by (simp only: motionRatio_def Let_def if_True)

lemma motionRatio_DEFAULTS_divides:
  "motionRatio (- (3 / 100)) DEFAULTS =
     \<bar>(snd (axlePosition (- (3 / 100) + 0.0001) (swingarmLength DEFAULTS))
        - snd (axlePosition (- (3 / 100) - 0.0001) (swingarmLength DEFAULTS)))
      / (shockCompression (- (3 / 100) + 0.0001) DEFAULTS
        - shockCompression (- (3 / 100) - 0.0001) DEFAULTS)\<bar>"
proof -
  have "\<not> \<bar>shockCompression (- (3 / 100) + 0.0001) DEFAULTS
            - shockCompression (- (3 / 100) - 0.0001) DEFAULTS\<bar> < 1 / 10 ^ 10"
    using DEFAULTS_compression_difference by (simp only: not_less)
  then show ?thesis
    by (simp only: motionRatio_def Let_def if_False)
qed

section \<open>The golden-section search on the default geometry\<close>

text \<open>
  With the defaults the first bracket is wider than the tolerance (the travel limits are
  more than 0.03 rad apart), so the loop body runs at least once before the result,
  the midpoint of the last bracket, is returned.
\<close>

theorem findPerpendicularAngle_terminates_witness:
  "\<exists>k. 0 < k
     \<and> findPerpendicularAngle DEFAULTS
          = Some ((bracket_lo (golden_iterate k DEFAULTS) + bracket_hi (golden_iterate k DEFAULTS)) / 2)
     \<and> \<not> tol < \<bar>bracket_hi (golden_iterate k DEFAULTS) - bracket_lo (golden_iterate k DEFAULTS)\<bar>
     \<and> tol < \<bar>bracket_hi (golden_iterate 0 DEFAULTS) - bracket_lo (golden_iterate 0 DEFAULTS)\<bar>"
proof -
  let ?e = "fullyExtendedAngle DEFAULTS" and ?c = "fullyCompressedAngle DEFAULTS"
  from findPerpendicularAngle_terminates [of DEFAULTS]
  obtain k where k:
    "findPerpendicularAngle DEFAULTS
       = Some ((bracket_lo (golden_iterate k DEFAULTS) + bracket_hi (golden_iterate k DEFAULTS)) / 2)"
    "\<not> tol < \<bar>bracket_hi (golden_iterate k DEFAULTS) - bracket_lo (golden_iterate k DEFAULTS)\<bar>"
    "bracket_lo (golden_iterate 0 DEFAULTS) = min ?e ?c"
    "bracket_hi (golden_iterate 0 DEFAULTS) = max ?e ?c"
    by blast
  have "3 / 100 \<le> ?c - ?e"
    using DEFAULTS_extended_bounds(2) DEFAULTS_compressed_bounds(1) by linarith
  then have "3 / 100 \<le> \<bar>max ?e ?c - min ?e ?c\<bar>"
    by (simp add: max_def min_def)
  moreover have "tol < 3 / 100"
    by (simp add: tol_def)
  ultimately have first: "tol < \<bar>bracket_hi (golden_iterate 0 DEFAULTS) - bracket_lo (golden_iterate 0 DEFAULTS)\<bar>"
    unfolding k(3,4) by linarith
  with k(2) have "k \<noteq> 0"
    by (rule_tac notI) simp
  then have "0 < k" by simp
  with k(1,2) first show ?thesis by blast
qed

end
